theory Spec2Isabelle
  imports Complex_Main "HOL-Library.AList" "HOL-Library.Multiset" "HOL-Library.Monad_Syntax"
begin

section \<open>PFM-DenseBench: the client-side aggregation engine\<close>

text \<open>
  The development embeds the aggregation functions of \<^verbatim>\<open>src/js/leaderboard.js\<close>
  (\<^verbatim>\<open>getDatasetCategory\<close>, \<^verbatim>\<open>computeDetailedStats\<close>, \<^verbatim>\<open>computeModelDatasetRanks\<close>) and of
  \<^verbatim>\<open>src/js/performance.js\<close> (\<^verbatim>\<open>getDatasetCategory\<close>, \<^verbatim>\<open>processPerformanceData\<close>).
  The two functions of leaderboard.js that build the tables are embedded twice: as functions
  from values to values, for what they compute, and as computations on a store of objects,
  for what they write to and for what a repeated call finds.

  Modelling conventions.
  \<^item> A JavaScript object that is used as a dictionary is an association list
    \<open>(string \<times> 'v) list\<close> of its own properties: the list is the sequence \<^verbatim>\<open>Object.entries\<close>
    enumerates, and a property write \<^verbatim>\<open>o[k] = v\<close> is \<open>AList.update k v o\<close> (an existing key
    keeps its place, a new key goes to the end). JavaScript enumerates keys that are array
    indices before the other keys; the properties below are about reads by key and do not
    depend on the order of the keys in the objects that the functions build.
  \<^item> A property read \<^verbatim>\<open>o[k]\<close> with a key that comes from the data is \<open>getProp o k\<close>: the own
    property, or else the member that \<^verbatim>\<open>Object.prototype\<close> has under that name, or else
    \<^verbatim>\<open>undefined\<close>. A read with a key that is a constant of the code (\<^verbatim>\<open>Mean_Dice\<close>, a
    configured metric, method or category) is \<open>map_of o k\<close>, \<open>None\<close> being \<^verbatim>\<open>undefined\<close>: none of
    these constants is a name of \<^verbatim>\<open>Object.prototype\<close>.
  \<^item> JSON numbers are \<open>real\<close>; ranks are \<open>nat\<close> and are read as reals when averaged.
  \<^item> \<^verbatim>\<open>Array.prototype.sort\<close> is stable; with the comparator \<^verbatim>\<open>(a, b) => b.score - a.score\<close>
    it is the stable sort by descending score, \<open>sort_key\<close> on the negated score.
  \<^item> A \<^verbatim>\<open>TypeError\<close> thrown by the source is the value \<open>Inl TypeError\<close>.
\<close>

subsection \<open>Data model\<close>

type_synonym 'v obj = "(string \<times> 'v) list"

record observation =
  mean :: real
  ci_lower :: real
  ci_upper :: real

text \<open>metric name \<open>\<rightarrow>\<close> observation; model key \<open>\<rightarrow>\<close> metrics; dataset \<open>\<rightarrow>\<close> models;
  method \<open>\<rightarrow>\<close> datasets.\<close>

type_synonym metrics = "observation obj"
type_synonym models = "metrics obj"
type_synonym methodData = "models obj"
type_synonym rawData = "methodData obj"

text \<open>\<open>TypeError\<close> is the exception of the source. \<open>Unmodelled\<close> marks the one behaviour of the
  source that the embedding does not follow (see \<open>assignObject\<close> below).\<close>

datatype error = TypeError | Unmodelled

subsection \<open>Property lookup and assignment\<close>

text \<open>
  The dictionaries of the source are created by an object literal or by \<^verbatim>\<open>JSON.parse\<close>, so
  they inherit from \<^verbatim>\<open>Object.prototype\<close>. These are the names of its members.
\<close>

definition objectPrototypeNames :: "string list" where
  "objectPrototypeNames =
     [''constructor'', ''__proto__'', ''hasOwnProperty'', ''isPrototypeOf'',
      ''propertyIsEnumerable'', ''toLocaleString'', ''toString'', ''valueOf'',
      ''__defineGetter__'', ''__defineSetter__'', ''__lookupGetter__'', ''__lookupSetter__'']"

text \<open>
  The result of a read \<^verbatim>\<open>o[k]\<close>: the own property, an inherited member, or \<^verbatim>\<open>undefined\<close>.
  An inherited member is a function, or \<^verbatim>\<open>Object.prototype\<close> itself under \<^verbatim>\<open>__proto__\<close>: it is
  truthy, it has no enumerable own property, and it has neither a method \<^verbatim>\<open>push\<close> nor any of
  the properties that the source reads from the entries of its dictionaries.
\<close>

datatype 'v lookup = Own 'v | Inherited | Undefined

definition getProp :: "'v obj \<Rightarrow> string \<Rightarrow> 'v lookup" where
  "getProp tbl k =
     (case map_of tbl k of
        Some v \<Rightarrow> Own v
      | None \<Rightarrow> if k \<in> set objectPrototypeNames then Inherited else Undefined)"

text \<open>
  A write \<^verbatim>\<open>o[k] = v\<close> to an object created by a literal. Under the key \<^verbatim>\<open>__proto__\<close> the
  write calls the setter of \<^verbatim>\<open>Object.prototype\<close>: a number is ignored and no property is
  created; an object becomes the prototype of \<^verbatim>\<open>o\<close>, which changes what every later read of
  \<^verbatim>\<open>o\<close> finds. The latter is not modelled: \<open>assignObject\<close> ends with \<open>Unmodelled\<close>, and the
  properties below exclude the case by a hypothesis.
\<close>

definition assignObject :: "string \<Rightarrow> 'v \<Rightarrow> 'v obj \<Rightarrow> error + 'v obj" where
  "assignObject k v tbl = (if k = ''__proto__'' then Inl Unmodelled else Inr (AList.update k v tbl))"

definition assignNumber :: "string \<Rightarrow> real \<Rightarrow> real obj \<Rightarrow> real obj" where
  "assignNumber k v tbl = (if k = ''__proto__'' then tbl else AList.update k v tbl)"

text \<open>A loop whose body may throw: the first error ends it.\<close>

fun foldE :: "('b \<Rightarrow> 'a \<Rightarrow> error + 'b) \<Rightarrow> 'b \<Rightarrow> 'a list \<Rightarrow> error + 'b" where
  "foldE f acc [] = Inr acc"
| "foldE f acc (x # xs) = (case f acc x of Inl e \<Rightarrow> Inl e | Inr acc' \<Rightarrow> foldE f acc' xs)"

subsection \<open>Category Classifier\<close>

text \<open>The keys of \<^verbatim>\<open>datasetCategories\<close>, and the strings \<^verbatim>\<open>getDatasetCategory\<close> returns:
  one of the keys, or \<^verbatim>\<open>'Other'\<close>.\<close>

datatype category = Nuclear | Gland | Tissue

datatype label = Category category | Other

definition CONFIG_datasetCategories :: "(category \<times> string list) list" where
  "CONFIG_datasetCategories =
    [(Nuclear, [''CoNIC2022'', ''CoNSeP'', ''cpm15'', ''cpm17'', ''kumar'', ''Kumar'', ''Lizard'',
                ''NuCLS'', ''PanNuke'', ''TNBC'']),
     (Gland, [''GlaS'', ''CRAG'', ''RINGS'']),
     (Tissue, [''BCSS'', ''CoCaHis'', ''COSAS24'', ''EBHI'', ''WSSS4LUAD'', ''Janowczyk''])]"

definition PERF_CONFIG_datasetCategories :: "(category \<times> string list) list" where
  "PERF_CONFIG_datasetCategories =
    [(Nuclear, [''CoNIC2022'', ''CoNSeP'', ''cpm15'', ''cpm17'', ''kumar'', ''Lizard'',
                ''NuCLS'', ''PanNuke'', ''TNBC'']),
     (Gland, [''GlaS'', ''CRAG'', ''RINGS'']),
     (Tissue, [''BCSS'', ''CoCaHis'', ''COSAS24'', ''EBHI'', ''WSSS4LUAD'', ''Janowczyk''])]"

text \<open>The loop \<^verbatim>\<open>for (const [category, datasets] of Object.entries(...))\<close> with its early
  return; \<^verbatim>\<open>datasets.includes(dataset)\<close> is strict string equality.\<close>

fun categoryLoop :: "(category \<times> string list) list \<Rightarrow> string \<Rightarrow> label" where
  "categoryLoop [] dataset = Other"
| "categoryLoop ((category, datasets) # rest) dataset =
     (if dataset \<in> set datasets then Category category else categoryLoop rest dataset)"

text \<open>\<^verbatim>\<open>getDatasetCategory\<close> of leaderboard.js.\<close>

definition getDatasetCategory :: "string \<Rightarrow> label" where
  "getDatasetCategory dataset = categoryLoop CONFIG_datasetCategories dataset"

text \<open>\<^verbatim>\<open>getDatasetCategory\<close> of performance.js.\<close>

definition perf_getDatasetCategory :: "string \<Rightarrow> label" where
  "perf_getDatasetCategory dataset = categoryLoop PERF_CONFIG_datasetCategories dataset"

subsection \<open>Rank Aggregator\<close>

record scoreItem =
  model :: string
  score :: real

text \<open>\<^verbatim>\<open>m.Mean_Dice\<close> is truthy exactly when the model has the metric.\<close>

definition hasMeanDice :: "string \<times> metrics \<Rightarrow> bool" where
  "hasMeanDice = (\<lambda>(_, m). map_of m ''Mean_Dice'' \<noteq> None)"

definition toScoreItem :: "string \<times> metrics \<Rightarrow> scoreItem" where
  "toScoreItem = (\<lambda>(model, m). \<lparr>model = model, score = mean (the (map_of m ''Mean_Dice''))\<rparr>)"

text \<open>
  \<^verbatim>\<open>Object.entries(models).filter(([_, m]) => m.Mean_Dice)
        .map(([model, m]) => ({ model, score: m.Mean_Dice.mean }))\<close>
\<close>

definition scoreEntries :: "models \<Rightarrow> scoreItem list" where
  "scoreEntries models = map toScoreItem (filter hasMeanDice models)"

text \<open>\<^verbatim>\<open>.sort((a, b) => b.score - a.score)\<close>: the \<^verbatim>\<open>scores\<close> array of both aggregation
  functions.\<close>

definition scoresOf :: "models \<Rightarrow> scoreItem list" where
  "scoresOf models = sort_key (\<lambda>item. - score item) (scoreEntries models)"



subsection \<open>The summary input\<close>

record modelRank =
  model_key :: string
  model_display :: string
  avg_rank :: real
  avg_rank_display :: string
  position :: nat
  total_comparisons :: nat

record sotaRecord =
  mDice :: real
  mDice_display :: string
  sota_model :: string
  sota_method :: string
  sota_category :: string
  dataset_display :: string

record methodComparison =
  method_display :: string
  avg_mDice :: real
  avg_mDice_display :: string

record stats =
  model_ranks :: "modelRank list"
  dataset_sota :: "sotaRecord obj"
  method_comparison :: "methodComparison obj"

definition CONFIG_methods :: "string list" where
  "CONFIG_methods = [''frozen'', ''lora'', ''dora'', ''cnn'', ''transformer'']"

subsection \<open>Category Rank Averager (first part of \<^verbatim>\<open>computeDetailedStats\<close>)\<close>

text \<open>
  An entry of \<^verbatim>\<open>modelCategoryRanks\<close>: \<open>ce_model\<close> and \<open>ce_overall\<close> are the properties
  \<^verbatim>\<open>model\<close> and \<^verbatim>\<open>overall\<close>; \<open>ce_ranks e c\<close> is the array under the key \<open>c\<close>
  (\<^verbatim>\<open>Nuclear\<close>, \<^verbatim>\<open>Gland\<close>, \<^verbatim>\<open>Tissue\<close>); \<open>ce_avg e c\<close> is the property \<^verbatim>\<open>`${c}Avg`\<close>,
  \<open>None\<close> while it has not been assigned.
\<close>

record categoryEntry =
  ce_model :: string
  ce_overall :: real
  ce_ranks :: "category \<Rightarrow> nat list"
  ce_avg :: "category \<Rightarrow> real option"

text \<open>\<^verbatim>\<open>for (const model of stats.model_ranks) modelCategoryRanks[model.model_key] = {...}\<close>\<close>

definition initCategoryRanks :: "modelRank list \<Rightarrow> error + categoryEntry obj" where
  "initCategoryRanks modelRanks =
     foldE (\<lambda>acc m. assignObject (model_key m)
              \<lparr>ce_model = model_display m, ce_overall = avg_rank m,
               ce_ranks = (\<lambda>_. []), ce_avg = (\<lambda>_. None)\<rparr> acc) [] modelRanks"

text \<open>\<^verbatim>\<open>entry[category].push(r)\<close>\<close>

definition pushRank :: "category \<Rightarrow> nat \<Rightarrow> categoryEntry \<Rightarrow> categoryEntry" where
  "pushRank category r e = e\<lparr>ce_ranks := (ce_ranks e)(category := ce_ranks e category @ [r])\<rparr>"

text \<open>
  The callback of \<^verbatim>\<open>scores.forEach((item, idx) => ...)\<close>:
  \<^verbatim>\<open>if (modelCategoryRanks[item.model]) modelCategoryRanks[item.model][category].push(idx + 1)\<close>.
  An inherited member passes the guard; it has no property named by a category, so the call
  of \<^verbatim>\<open>push\<close> on \<^verbatim>\<open>undefined\<close> throws.
\<close>

definition rankStep :: "category \<Rightarrow> categoryEntry obj \<Rightarrow> nat \<times> scoreItem \<Rightarrow> error + categoryEntry obj" where
  "rankStep category acc = (\<lambda>(idx, item).
     case getProp acc (model item) of
       Undefined \<Rightarrow> Inr acc
     | Inherited \<Rightarrow> Inl TypeError
     | Own e \<Rightarrow> Inr (AList.update (model item) (pushRank category (idx + 1) e) acc))"

text \<open>The body of the loop over the datasets of one method; \<^verbatim>\<open>continue\<close> on \<^verbatim>\<open>'Other'\<close>.\<close>

definition datasetStep :: "categoryEntry obj \<Rightarrow> string \<times> models \<Rightarrow> error + categoryEntry obj" where
  "datasetStep acc = (\<lambda>(dataset, models).
     case getDatasetCategory dataset of
       Other \<Rightarrow> Inr acc
     | Category category \<Rightarrow> foldE (rankStep category) acc (enumerate 0 (scoresOf models)))"

definition collectCategoryRanks :: "rawData \<Rightarrow> categoryEntry obj \<Rightarrow> error + categoryEntry obj" where
  "collectCategoryRanks rawData acc =
     foldE (\<lambda>acc (method, methodData). foldE datasetStep acc methodData) acc rawData"

text \<open>\<^verbatim>\<open>xs.reduce((a, b) => a + b, 0)\<close>\<close>

definition reduceSum :: "real list \<Rightarrow> real" where
  "reduceSum xs = foldl (\<lambda>a b. a + b) 0 xs"

text \<open>
  \<^verbatim>\<open>modelData[`${category}Avg`] = ranks.length > 0
        ? ranks.reduce((a, b) => a + b, 0) / ranks.length : 999\<close>
\<close>

definition averageCategory :: "categoryEntry \<Rightarrow> category \<Rightarrow> categoryEntry" where
  "averageCategory modelData category =
     (let ranks = ce_ranks modelData category
      in modelData\<lparr>ce_avg := (ce_avg modelData)(category \<mapsto>
           (if length ranks > 0 then reduceSum (map real ranks) / real (length ranks) else 999))\<rparr>)"

text \<open>\<^verbatim>\<open>for (const modelData of Object.values(modelCategoryRanks))
        for (const category of ['Nuclear', 'Gland', 'Tissue']) ...\<close>\<close>

definition averageCategories :: "categoryEntry obj \<Rightarrow> categoryEntry obj" where
  "averageCategories mcr =
     map (\<lambda>(k, modelData). (k, foldl averageCategory modelData [Nuclear, Gland, Tissue])) mcr"

definition computeCategoryRanks :: "rawData \<Rightarrow> modelRank list \<Rightarrow> error + categoryEntry obj" where
  "computeCategoryRanks rawData modelRanks =
     (case initCategoryRanks modelRanks of
        Inl e \<Rightarrow> Inl e
      | Inr mcr0 \<Rightarrow>
          (case collectCategoryRanks rawData mcr0 of
             Inl e \<Rightarrow> Inl e
           | Inr mcr \<Rightarrow> Inr (averageCategories mcr)))"

subsection \<open>Cross-Method Performance Averager (second part of \<^verbatim>\<open>computeDetailedStats\<close>)\<close>

text \<open>
  An entry of \<^verbatim>\<open>modelMethodPerformance\<close>: \<open>me_scores\<close> holds the properties named by a
  method (the arrays), \<open>me_avg\<close> the properties \<^verbatim>\<open>`${method}Avg`\<close>, keyed by the method, with
  \<open>None\<close> for \<^verbatim>\<open>null\<close>. No configured method is another one followed by \<^verbatim>\<open>Avg\<close>, so the
  two groups of properties do not meet.
\<close>

record methodEntry =
  me_scores :: "real list obj"
  me_avg :: "real option obj"

text \<open>\<^verbatim>\<open>modelMethodPerformance[modelKey] = {};
        for (const m of CONFIG.methods) modelMethodPerformance[modelKey][m] = [];\<close>\<close>

definition newMethodEntry :: methodEntry where
  "newMethodEntry = \<lparr>me_scores = foldl (\<lambda>acc m. AList.update m [] acc) [] CONFIG_methods, me_avg = []\<rparr>"

text \<open>\<^verbatim>\<open>if (!modelMethodPerformance[modelKey]) { ... }\<close>: the entry is created only when the
  read yields \<^verbatim>\<open>undefined\<close>; an inherited member is truthy.\<close>

definition ensureEntry :: "string \<Rightarrow> methodEntry obj \<Rightarrow> methodEntry obj" where
  "ensureEntry modelKey mmp =
     (case getProp mmp modelKey of
        Undefined \<Rightarrow> AList.update modelKey newMethodEntry mmp
      | Inherited \<Rightarrow> mmp
      | Own e \<Rightarrow> mmp)"

text \<open>
  \<^verbatim>\<open>modelMethodPerformance[modelKey][method].push(v)\<close>: a \<^verbatim>\<open>TypeError\<close> when
  \<^verbatim>\<open>modelMethodPerformance[modelKey]\<close> is undefined or an inherited member (which has no array
  under any name), and when the entry has no array under \<^verbatim>\<open>method\<close> (its properties are
  the configured methods; whatever else the read finds has no \<^verbatim>\<open>push\<close>).
\<close>

definition pushScore :: "string \<Rightarrow> string \<Rightarrow> real \<Rightarrow> methodEntry obj \<Rightarrow> error + methodEntry obj" where
  "pushScore method modelKey v mmp =
     (case getProp mmp modelKey of
        Undefined \<Rightarrow> Inl TypeError
      | Inherited \<Rightarrow> Inl TypeError
      | Own e \<Rightarrow>
          (case map_of (me_scores e) method of
             None \<Rightarrow> Inl TypeError
           | Some xs \<Rightarrow>
               Inr (AList.update modelKey
                      (e\<lparr>me_scores := AList.update method (xs @ [v]) (me_scores e)\<rparr>) mmp)))"

text \<open>The body of the innermost loop; \<^verbatim>\<open>continue\<close> without \<^verbatim>\<open>Mean_Dice\<close>.\<close>

definition performanceStep :: "string \<Rightarrow> methodEntry obj \<Rightarrow> string \<times> metrics \<Rightarrow> error + methodEntry obj" where
  "performanceStep method mmp = (\<lambda>(modelKey, metrics).
     case map_of metrics ''Mean_Dice'' of
       None \<Rightarrow> Inr mmp
     | Some ob \<Rightarrow> pushScore method modelKey (mean ob) (ensureEntry modelKey mmp))"

definition collectMethodPerformance :: "rawData \<Rightarrow> error + methodEntry obj" where
  "collectMethodPerformance rawData =
     foldE (\<lambda>acc (method, methodData).
              foldE (\<lambda>acc (dataset, models). foldE (performanceStep method) acc models) acc methodData)
       [] rawData"

text \<open>
  \<^verbatim>\<open>const scores = modelData[method];
        modelData[`${method}Avg`] = scores.length > 0
          ? scores.reduce((a, b) => a + b, 0) / scores.length : null\<close>
\<close>

definition averageMethod :: "methodEntry \<Rightarrow> string \<Rightarrow> error + methodEntry" where
  "averageMethod modelData method =
     (case map_of (me_scores modelData) method of
        None \<Rightarrow> Inl TypeError
      | Some scores \<Rightarrow>
          Inr (modelData\<lparr>me_avg := AList.update method
                 (if length scores > 0 then Some (reduceSum scores / real (length scores)) else None)
                 (me_avg modelData)\<rparr>))"

text \<open>\<^verbatim>\<open>for (const modelData of Object.values(modelMethodPerformance))
        for (const method of CONFIG.methods) ...\<close>\<close>

definition averageMethods :: "methodEntry obj \<Rightarrow> error + methodEntry obj" where
  "averageMethods mmp =
     foldE (\<lambda>acc (k, modelData).
              case foldE averageMethod modelData CONFIG_methods of
                Inl e \<Rightarrow> Inl e
              | Inr modelData' \<Rightarrow> Inr (acc @ [(k, modelData')])) [] mmp"

definition computeMethodPerformance :: "rawData \<Rightarrow> error + methodEntry obj" where
  "computeMethodPerformance rawData =
     (case collectMethodPerformance rawData of
        Inl e \<Rightarrow> Inl e
      | Inr mmp \<Rightarrow> averageMethods mmp)"

subsection \<open>Cross-Method Rank Averager (\<^verbatim>\<open>computeModelDatasetRanks\<close>)\<close>

text \<open>An entry of \<^verbatim>\<open>modelDatasetRanks\<close>: the properties \<^verbatim>\<open>model_display\<close> and
  \<^verbatim>\<open>datasets\<close>.\<close>

record datasetEntry =
  de_model_display :: string
  de_datasets :: "real obj"

definition initDatasetRanks :: "modelRank list \<Rightarrow> error + datasetEntry obj" where
  "initDatasetRanks modelRanks =
     foldE (\<lambda>acc m. assignObject (model_key m)
              \<lparr>de_model_display = model_display m, de_datasets = []\<rparr> acc) [] modelRanks"

text \<open>\<^verbatim>\<open>Set.prototype.add\<close>: a set keeps its elements in insertion order.\<close>

definition setAdd :: "string list \<Rightarrow> string \<Rightarrow> string list" where
  "setAdd s x = (if x \<in> set s then s else s @ [x])"

definition allDatasetsOf :: "rawData \<Rightarrow> string list" where
  "allDatasetsOf rawData =
     foldl (\<lambda>s (method, methodData). foldl setAdd s (map fst methodData)) [] rawData"

text \<open>
  The callback of \<^verbatim>\<open>scores.forEach\<close>:
  \<^verbatim>\<open>if (!modelRanksByMethod[item.model]) modelRanksByMethod[item.model] = [];
        modelRanksByMethod[item.model].push(idx + 1);\<close>
  An inherited member is truthy, so no array is created for it, and it has no \<^verbatim>\<open>push\<close>.
\<close>

definition ranksByMethodStep :: "nat list obj \<Rightarrow> nat \<times> scoreItem \<Rightarrow> error + nat list obj" where
  "ranksByMethodStep acc = (\<lambda>(idx, item).
     case getProp acc (model item) of
       Undefined \<Rightarrow> Inr (AList.update (model item) ([] @ [idx + 1]) acc)
     | Inherited \<Rightarrow> Inl TypeError
     | Own ranks \<Rightarrow> Inr (AList.update (model item) (ranks @ [idx + 1]) acc))"

text \<open>
  The loop over the methods for one dataset; \<^verbatim>\<open>continue\<close> when \<^verbatim>\<open>methodData[dataset]\<close> is
  undefined. When the read finds an inherited member, \<^verbatim>\<open>Object.entries\<close> of it is empty and
  the callback is not called.
\<close>

definition collectDatasetRanks :: "rawData \<Rightarrow> string \<Rightarrow> error + nat list obj" where
  "collectDatasetRanks rawData dataset =
     foldE (\<lambda>acc (method, methodData).
              case getProp methodData dataset of
                Undefined \<Rightarrow> Inr acc
              | Inherited \<Rightarrow> foldE ranksByMethodStep acc (enumerate 0 (scoresOf []))
              | Own models \<Rightarrow> foldE ranksByMethodStep acc (enumerate 0 (scoresOf models)))
       [] rawData"

text \<open>
  \<^verbatim>\<open>for (const [modelKey, ranks] of Object.entries(modelRanksByMethod))
          if (modelDatasetRanks[modelKey])
            modelDatasetRanks[modelKey].datasets[dataset] =
              ranks.reduce((a, b) => a + b, 0) / ranks.length;\<close>
  An inherited member passes the guard and has no property \<^verbatim>\<open>datasets\<close>: the assignment
  to a property of \<^verbatim>\<open>undefined\<close> throws.
\<close>

definition storeAverageRank :: "string \<Rightarrow> datasetEntry obj \<Rightarrow> string \<times> nat list \<Rightarrow> error + datasetEntry obj" where
  "storeAverageRank dataset acc = (\<lambda>(modelKey, ranks).
     case getProp acc modelKey of
       Undefined \<Rightarrow> Inr acc
     | Inherited \<Rightarrow> Inl TypeError
     | Own e \<Rightarrow>
         Inr (AList.update modelKey
                (e\<lparr>de_datasets := assignNumber dataset
                      (reduceSum (map real ranks) / real (length ranks)) (de_datasets e)\<rparr>) acc))"

definition computeModelDatasetRanks :: "rawData \<Rightarrow> modelRank list \<Rightarrow> error + datasetEntry obj" where
  "computeModelDatasetRanks rawData modelRanks =
     (case initDatasetRanks modelRanks of
        Inl e \<Rightarrow> Inl e
      | Inr mdr0 \<Rightarrow>
          foldE (\<lambda>acc dataset.
                   case collectDatasetRanks rawData dataset of
                     Inl e \<Rightarrow> Inl e
                   | Inr modelRanksByMethod \<Rightarrow> foldE (storeAverageRank dataset) acc modelRanksByMethod)
            mdr0 (allDatasetsOf rawData))"

subsection \<open>\<^verbatim>\<open>computeDetailedStats\<close>\<close>

record detailedStats =
  modelCategoryRanks :: "categoryEntry obj"
  modelMethodPerformance :: "methodEntry obj"
  modelDatasetRanks :: "datasetEntry obj"

text \<open>The three parts run in the order of the source; the first error ends the call.\<close>

definition computeDetailedStats :: "rawData \<Rightarrow> stats \<Rightarrow> error + detailedStats" where
  "computeDetailedStats rawData stats =
     (case computeCategoryRanks rawData (model_ranks stats) of
        Inl e \<Rightarrow> Inl e
      | Inr mcr \<Rightarrow>
          (case computeMethodPerformance rawData of
             Inl e \<Rightarrow> Inl e
           | Inr mmp \<Rightarrow>
               (case computeModelDatasetRanks rawData (model_ranks stats) of
                  Inl e \<Rightarrow> Inl e
                | Inr mdr \<Rightarrow>
                    Inr \<lparr>modelCategoryRanks = mcr,
                         modelMethodPerformance = mmp,
                         modelDatasetRanks = mdr\<rparr>)))"

subsection \<open>performance.js: \<^verbatim>\<open>processPerformanceData\<close>\<close>

definition PERF_CONFIG_methodNames :: "string obj" where
  "PERF_CONFIG_methodNames =
     [(''frozen'', ''Frozen''), (''lora'', ''LoRA''), (''dora'', ''DoRA''),
      (''cnn'', ''CNN Adapter''), (''transformer'', ''Trans. Adapter'')]"



definition PERF_CONFIG_modelDisplayNames :: "string obj" where
  "PERF_CONFIG_modelDisplayNames =
     [(''PathOrchestra'', ''PathOrchestra''), (''conch_v1_5'', ''CONCHv1.5''),
      (''conch_v1'', ''CONCH''), (''gigapath'', ''Prov-GigaPath''), (''hibou_l'', ''Hibou-L''),
      (''hoptimus_0'', ''H-Optimus-0''), (''hoptimus_1'', ''H-Optimus-1''),
      (''kaiko-vitl14'', ''Kaiko-L''), (''lunit_vits8'', ''Lunit''),
      (''midnight12k'', ''Midnight-12k''), (''musk'', ''MUSK''), (''phikon'', ''Phikon''),
      (''phikon_v2'', ''Phikon-v2''), (''uni_v1'', ''UNI''), (''uni_v2'', ''UNI2-h''),
      (''virchow_v1'', ''Virchow''), (''virchow_v2'', ''Virchow2'')]"

text \<open>\<^verbatim>\<open>table[key] || key\<close>: the key itself when the table has no entry, or an empty one;
  the inherited member (which is truthy) when the key names one.\<close>

definition displayNameOr :: "string obj \<Rightarrow> string \<Rightarrow> string lookup" where
  "displayNameOr table key =
     (case getProp table key of
        Undefined \<Rightarrow> Own key
      | Inherited \<Rightarrow> Inherited
      | Own n \<Rightarrow> if n = [] then Own key else Own n)"

definition getModelDisplayName :: "string \<Rightarrow> string lookup" where
  "getModelDisplayName modelKey = displayNameOr PERF_CONFIG_modelDisplayNames modelKey"


text \<open>An element of \<^verbatim>\<open>metricData\<close>; \<open>md_methodDisplay\<close> is the result of the read
  \<^verbatim>\<open>PERF_CONFIG.methodNames[method]\<close>.\<close>

record metricDatum =
  md_model :: string
  md_modelDisplay :: "string lookup"
  md_method :: string
  md_methodDisplay :: "string lookup"
  md_mean :: real
  md_ci_lower :: real
  md_ci_upper :: real
  md_std :: real

definition toMetricDatum :: "string \<Rightarrow> string \<Rightarrow> observation \<Rightarrow> metricDatum" where
  "toMetricDatum meth modelKey ob =
     \<lparr>md_model = modelKey,
      md_modelDisplay = getModelDisplayName modelKey,
      md_method = meth,
      md_methodDisplay = getProp PERF_CONFIG_methodNames meth,
      md_mean = mean ob,
      md_ci_lower = ci_lower ob,
      md_ci_upper = ci_upper ob,
      md_std = (ci_upper ob - ci_lower ob) / (2 * 1.96)\<rparr>"









subsection \<open>The aggregation on a store\<close>

text \<open>
  A second embedding of \<^verbatim>\<open>computeDetailedStats\<close> and \<^verbatim>\<open>computeModelDatasetRanks\<close>, in which
  the objects and arrays of the program live in a store and the statements of the source
  read and write it. It is used for the properties that speak of object identity: what the
  functions write to, and what a second call finds.

  \<^item> A value is a primitive, a reference to an object or array of the store, or \<open>VBuiltin\<close>, a
    member inherited from \<^verbatim>\<open>Object.prototype\<close> (truthy, without enumerable own property,
    not an array).
  \<^item> A computation returns \<open>None\<close> when the source throws, and also when it meets what the
    embedding does not follow: data that are not of the shape of the JSON files (a model key
    that is not a string, a mean that is not a number, an array where an object is
    expected), or an assignment of an object under the key \<^verbatim>\<open>__proto__\<close>.
  \<^item> The array \<^verbatim>\<open>scores\<close> and the set \<^verbatim>\<open>allDatasets\<close> are local to one loop body and are
    never stored in another object; they are kept as lists, not in the store.
\<close>

type_synonym addr = nat

datatype val = VUndefined | VNull | VNum real | VStr string | VRef addr | VBuiltin

datatype hobj = HObj "val obj" | HArr "val list"

type_synonym heap = "hobj list"

text \<open>An object or array literal: a new cell at the end of the store.\<close>

definition alloc :: "hobj \<Rightarrow> heap \<Rightarrow> val \<times> heap" where
  "alloc ob h = (VRef (length h), h @ [ob])"

text \<open>\<^verbatim>\<open>Object.entries(v)\<close>; empty for an inherited member, a \<^verbatim>\<open>TypeError\<close> for
  \<^verbatim>\<open>undefined\<close> and \<^verbatim>\<open>null\<close>.\<close>

definition ownEntries :: "val \<Rightarrow> heap \<Rightarrow> (string \<times> val) list option" where
  "ownEntries v h =
     (case v of
        VRef a \<Rightarrow> if a < length h then (case h ! a of HObj ps \<Rightarrow> Some ps | HArr xs \<Rightarrow> None) else None
      | VBuiltin \<Rightarrow> Some []
      | _ \<Rightarrow> None)"

text \<open>The elements of an array, for \<^verbatim>\<open>for (const x of v)\<close>, \<^verbatim>\<open>v.length\<close> and \<^verbatim>\<open>v.reduce\<close>.\<close>

definition arrayElements :: "val \<Rightarrow> heap \<Rightarrow> val list option" where
  "arrayElements v h =
     (case v of
        VRef a \<Rightarrow> if a < length h then (case h ! a of HArr xs \<Rightarrow> Some xs | HObj ps \<Rightarrow> None) else None
      | _ \<Rightarrow> None)"

text \<open>
  A read \<^verbatim>\<open>v[k]\<close>: the own property of an object, or else the member inherited from
  \<^verbatim>\<open>Object.prototype\<close>, or else \<^verbatim>\<open>undefined\<close>; a \<^verbatim>\<open>TypeError\<close> on \<^verbatim>\<open>undefined\<close> and \<^verbatim>\<open>null\<close>.
  An inherited member has none of the properties that the source reads from it (a category,
  \<^verbatim>\<open>datasets\<close>, a method whose array is then pushed to).
\<close>

definition readProp :: "val \<Rightarrow> string \<Rightarrow> heap \<Rightarrow> val option" where
  "readProp v k h =
     (case v of
        VRef a \<Rightarrow>
          if a < length h
          then (case h ! a of
                  HObj ps \<Rightarrow>
                    Some (case map_of ps k of
                            Some w \<Rightarrow> w
                          | None \<Rightarrow> if k \<in> set objectPrototypeNames then VBuiltin else VUndefined)
                | HArr xs \<Rightarrow> None)
          else None
      | VBuiltin \<Rightarrow> Some VUndefined
      | _ \<Rightarrow> None)"

text \<open>
  A write \<^verbatim>\<open>v[k] = w\<close> to an object: the own property is created or replaced. Under the
  key \<^verbatim>\<open>__proto__\<close> a number or string is ignored and the store stays as it is; an object
  there would become the prototype, which is not followed (\<open>None\<close>, as for every other value
  under that key). A \<^verbatim>\<open>TypeError\<close> on \<^verbatim>\<open>undefined\<close> and \<^verbatim>\<open>null\<close>.
\<close>

definition writeProp :: "val \<Rightarrow> string \<Rightarrow> val \<Rightarrow> heap \<Rightarrow> heap option" where
  "writeProp v k w h =
     (case v of
        VRef a \<Rightarrow>
          if a < length h
          then (case h ! a of
                  HObj ps \<Rightarrow>
                    if k = ''__proto__''
                    then (case w of VNum x \<Rightarrow> Some h | VStr s \<Rightarrow> Some h | _ \<Rightarrow> None)
                    else Some (h[a := HObj (AList.update k w ps)])
                | HArr xs \<Rightarrow> None)
          else None
      | _ \<Rightarrow> None)"

text \<open>\<^verbatim>\<open>v.push(w)\<close>: a \<^verbatim>\<open>TypeError\<close> unless \<^verbatim>\<open>v\<close> is an array.\<close>

definition arrayPush :: "val \<Rightarrow> val \<Rightarrow> heap \<Rightarrow> heap option" where
  "arrayPush v w h =
     (case v of
        VRef a \<Rightarrow>
          if a < length h
          then (case h ! a of HArr xs \<Rightarrow> Some (h[a := HArr (xs @ [w])]) | HObj ps \<Rightarrow> None)
          else None
      | _ \<Rightarrow> None)"

fun truthy :: "val \<Rightarrow> bool" where
  "truthy VUndefined = False"
| "truthy VNull = False"
| "truthy (VNum x) = (x \<noteq> 0)"
| "truthy (VStr s) = (s \<noteq> [])"
| "truthy (VRef a) = True"
| "truthy VBuiltin = True"

fun asNum :: "val \<Rightarrow> real option" where
  "asNum (VNum x) = Some x"
| "asNum _ = None"

fun asStr :: "val \<Rightarrow> string option" where
  "asStr (VStr s) = Some s"
| "asStr _ = None"

text \<open>A loop over a list whose body updates the store.\<close>

fun forEach :: "('a \<Rightarrow> heap \<Rightarrow> heap option) \<Rightarrow> 'a list \<Rightarrow> heap \<Rightarrow> heap option" where
  "forEach f [] h = Some h"
| "forEach f (x # xs) h = (case f x h of None \<Rightarrow> None | Some h' \<Rightarrow> forEach f xs h')"

definition readStr :: "val \<Rightarrow> string \<Rightarrow> heap \<Rightarrow> string option" where
  "readStr v k h = do { w \<leftarrow> readProp v k h; asStr w }"

definition readNum :: "val \<Rightarrow> string \<Rightarrow> heap \<Rightarrow> real option" where
  "readNum v k h = do { w \<leftarrow> readProp v k h; asNum w }"

text \<open>The numbers of an array, for \<^verbatim>\<open>ranks.reduce((a, b) => a + b, 0) / ranks.length\<close>.\<close>

definition numbers :: "val \<Rightarrow> heap \<Rightarrow> real list option" where
  "numbers v h = do { xs \<leftarrow> arrayElements v h; those (map asNum xs) }"

fun categoryName :: "category \<Rightarrow> string" where
  "categoryName Nuclear = ''Nuclear''"
| "categoryName Gland = ''Gland''"
| "categoryName Tissue = ''Tissue''"

subsection \<open>\<^verbatim>\<open>computeDetailedStats\<close> on the store\<close>

text \<open>
  \<^verbatim>\<open>modelCategoryRanks[model.model_key] =
          { model: model.model_display, overall: model.avg_rank, Nuclear: [], Gland: [], Tissue: [] }\<close>
\<close>

definition h_initCategoryEntry :: "val \<Rightarrow> val \<Rightarrow> heap \<Rightarrow> heap option" where
  "h_initCategoryEntry categoryRanks modelRank h = do {
     key \<leftarrow> readStr modelRank ''model_key'' h;
     display \<leftarrow> readStr modelRank ''model_display'' h;
     avg \<leftarrow> readNum modelRank ''avg_rank'' h;
     let (nuclear, h) = alloc (HArr []) h;
     let (gland, h) = alloc (HArr []) h;
     let (tissue, h) = alloc (HArr []) h;
     let (entry, h) = alloc (HObj [(''model'', VStr display), (''overall'', VNum avg),
                                   (''Nuclear'', nuclear), (''Gland'', gland), (''Tissue'', tissue)]) h;
     writeProp categoryRanks key entry h }"

text \<open>One entry \<^verbatim>\<open>[model, m]\<close> through \<^verbatim>\<open>.filter(([_, m]) => m.Mean_Dice)\<close> and
  \<^verbatim>\<open>.map(([model, m]) => ({ model, score: m.Mean_Dice.mean }))\<close>.\<close>

definition h_scoreItem :: "heap \<Rightarrow> string \<times> val \<Rightarrow> scoreItem list option" where
  "h_scoreItem h = (\<lambda>(model, m). do {
     d \<leftarrow> readProp m ''Mean_Dice'' h;
     if truthy d then do { x \<leftarrow> readNum d ''mean'' h; Some [\<lparr>model = model, score = x\<rparr>] }
     else Some [] })"

text \<open>The sorted array \<^verbatim>\<open>scores\<close> of a \<^verbatim>\<open>models\<close> object.\<close>

definition h_scoresOf :: "val \<Rightarrow> heap \<Rightarrow> scoreItem list option" where
  "h_scoresOf models h = do {
     es \<leftarrow> ownEntries models h;
     items \<leftarrow> those (map (h_scoreItem h) es);
     Some (sort_key (\<lambda>item. - score item) (concat items)) }"

text \<open>\<^verbatim>\<open>if (modelCategoryRanks[item.model])
          modelCategoryRanks[item.model][category].push(idx + 1);\<close>\<close>

definition h_rankStep :: "val \<Rightarrow> category \<Rightarrow> nat \<times> scoreItem \<Rightarrow> heap \<Rightarrow> heap option" where
  "h_rankStep categoryRanks category = (\<lambda>(idx, item) h. do {
     entry \<leftarrow> readProp categoryRanks (model item) h;
     if truthy entry
     then do { entry \<leftarrow> readProp categoryRanks (model item) h;
               ranks \<leftarrow> readProp entry (categoryName category) h;
               arrayPush ranks (VNum (real (idx + 1))) h }
     else Some h })"

definition h_datasetStep :: "val \<Rightarrow> string \<times> val \<Rightarrow> heap \<Rightarrow> heap option" where
  "h_datasetStep categoryRanks = (\<lambda>(dataset, models) h.
     case getDatasetCategory dataset of
       Other \<Rightarrow> Some h
     | Category category \<Rightarrow> do {
         scores \<leftarrow> h_scoresOf models h;
         forEach (h_rankStep categoryRanks category) (enumerate 0 scores) h })"

definition h_collectCategoryRanks :: "val \<Rightarrow> val \<Rightarrow> heap \<Rightarrow> heap option" where
  "h_collectCategoryRanks categoryRanks rawData h = do {
     methods \<leftarrow> ownEntries rawData h;
     forEach (\<lambda>(meth, methodData) h. do {
                datasets \<leftarrow> ownEntries methodData h;
                forEach (h_datasetStep categoryRanks) datasets h }) methods h }"

text \<open>
  \<^verbatim>\<open>const ranks = modelData[category];
        modelData[`${category}Avg`] = ranks.length > 0
          ? ranks.reduce((a, b) => a + b, 0) / ranks.length : 999;\<close>
\<close>

definition h_averageCategory :: "val \<Rightarrow> category \<Rightarrow> heap \<Rightarrow> heap option" where
  "h_averageCategory modelData category h = do {
     arr \<leftarrow> readProp modelData (categoryName category) h;
     ranks \<leftarrow> numbers arr h;
     writeProp modelData (categoryName category @ ''Avg'')
       (VNum (if length ranks > 0 then reduceSum ranks / real (length ranks) else 999)) h }"

definition h_averageCategories :: "val \<Rightarrow> heap \<Rightarrow> heap option" where
  "h_averageCategories categoryRanks h = do {
     es \<leftarrow> ownEntries categoryRanks h;
     forEach (\<lambda>modelData. forEach (h_averageCategory modelData) [Nuclear, Gland, Tissue])
       (map snd es) h }"

text \<open>\<^verbatim>\<open>modelMethodPerformance[modelKey] = {};
        for (const m of CONFIG.methods) modelMethodPerformance[modelKey][m] = [];\<close>\<close>

definition h_newMethodEntry :: "val \<Rightarrow> string \<Rightarrow> heap \<Rightarrow> heap option" where
  "h_newMethodEntry methodPerformance modelKey h = do {
     let (entry, h) = alloc (HObj []) h;
     h \<leftarrow> writeProp methodPerformance modelKey entry h;
     forEach (\<lambda>m h. do {
                e \<leftarrow> readProp methodPerformance modelKey h;
                let (arr, h) = alloc (HArr []) h;
                writeProp e m arr h }) CONFIG_methods h }"

text \<open>
  \<^verbatim>\<open>if (!metrics.Mean_Dice) continue;
        if (!modelMethodPerformance[modelKey]) { ... }
        modelMethodPerformance[modelKey][method].push(metrics.Mean_Dice.mean);\<close>
\<close>

definition h_performanceStep :: "val \<Rightarrow> string \<Rightarrow> string \<times> val \<Rightarrow> heap \<Rightarrow> heap option" where
  "h_performanceStep methodPerformance meth = (\<lambda>(modelKey, metrics) h. do {
     d \<leftarrow> readProp metrics ''Mean_Dice'' h;
     if \<not> truthy d then Some h
     else do {
       e \<leftarrow> readProp methodPerformance modelKey h;
       h \<leftarrow> (if \<not> truthy e then h_newMethodEntry methodPerformance modelKey h else Some h);
       e \<leftarrow> readProp methodPerformance modelKey h;
       arr \<leftarrow> readProp e meth h;
       d \<leftarrow> readProp metrics ''Mean_Dice'' h;
       x \<leftarrow> readNum d ''mean'' h;
       arrayPush arr (VNum x) h } })"

definition h_collectMethodPerformance :: "val \<Rightarrow> val \<Rightarrow> heap \<Rightarrow> heap option" where
  "h_collectMethodPerformance methodPerformance rawData h = do {
     methods \<leftarrow> ownEntries rawData h;
     forEach (\<lambda>(meth, methodData) h. do {
                datasets \<leftarrow> ownEntries methodData h;
                forEach (\<lambda>(dataset, models) h. do {
                           ms \<leftarrow> ownEntries models h;
                           forEach (h_performanceStep methodPerformance meth) ms h })
                  datasets h }) methods h }"

text \<open>
  \<^verbatim>\<open>const scores = modelData[method];
        modelData[`${method}Avg`] = scores.length > 0
          ? scores.reduce((a, b) => a + b, 0) / scores.length : null;\<close>
\<close>

definition h_averageMethod :: "val \<Rightarrow> string \<Rightarrow> heap \<Rightarrow> heap option" where
  "h_averageMethod modelData meth h = do {
     arr \<leftarrow> readProp modelData meth h;
     scores \<leftarrow> numbers arr h;
     writeProp modelData (meth @ ''Avg'')
       (if length scores > 0 then VNum (reduceSum scores / real (length scores)) else VNull) h }"

definition h_averageMethods :: "val \<Rightarrow> heap \<Rightarrow> heap option" where
  "h_averageMethods methodPerformance h = do {
     es \<leftarrow> ownEntries methodPerformance h;
     forEach (\<lambda>modelData. forEach (h_averageMethod modelData) CONFIG_methods) (map snd es) h }"

subsection \<open>\<^verbatim>\<open>computeModelDatasetRanks\<close> on the store\<close>

text \<open>\<^verbatim>\<open>modelDatasetRanks[model.model_key] = { model_display: model.model_display, datasets: {} }\<close>\<close>

definition h_initDatasetEntry :: "val \<Rightarrow> val \<Rightarrow> heap \<Rightarrow> heap option" where
  "h_initDatasetEntry datasetRanks modelRank h = do {
     key \<leftarrow> readStr modelRank ''model_key'' h;
     display \<leftarrow> readStr modelRank ''model_display'' h;
     let (datasets, h) = alloc (HObj []) h;
     let (entry, h) = alloc (HObj [(''model_display'', VStr display), (''datasets'', datasets)]) h;
     writeProp datasetRanks key entry h }"

text \<open>The loops that fill \<^verbatim>\<open>allDatasets\<close>.\<close>

definition h_allDatasets :: "val \<Rightarrow> heap \<Rightarrow> string list option" where
  "h_allDatasets rawData h = do {
     methods \<leftarrow> ownEntries rawData h;
     datasets \<leftarrow> those (map (\<lambda>methodData. ownEntries methodData h) (map snd methods));
     Some (foldl (\<lambda>s ds. foldl setAdd s (map fst ds)) [] datasets) }"

text \<open>
  \<^verbatim>\<open>if (!modelRanksByMethod[item.model]) modelRanksByMethod[item.model] = [];
        modelRanksByMethod[item.model].push(idx + 1);\<close>
\<close>

definition h_ranksByMethodStep :: "val \<Rightarrow> nat \<times> scoreItem \<Rightarrow> heap \<Rightarrow> heap option" where
  "h_ranksByMethodStep modelRanksByMethod = (\<lambda>(idx, item) h. do {
     r \<leftarrow> readProp modelRanksByMethod (model item) h;
     h \<leftarrow> (if \<not> truthy r
           then do { let (arr, h) = alloc (HArr []) h;
                     writeProp modelRanksByMethod (model item) arr h }
           else Some h);
     ranks \<leftarrow> readProp modelRanksByMethod (model item) h;
     arrayPush ranks (VNum (real (idx + 1))) h })"

definition h_collectDatasetRanks :: "val \<Rightarrow> val \<Rightarrow> string \<Rightarrow> heap \<Rightarrow> heap option" where
  "h_collectDatasetRanks modelRanksByMethod rawData dataset h = do {
     methods \<leftarrow> ownEntries rawData h;
     forEach (\<lambda>(meth, methodData) h. do {
                models \<leftarrow> readProp methodData dataset h;
                if \<not> truthy models then Some h
                else do {
                  models \<leftarrow> readProp methodData dataset h;
                  scores \<leftarrow> h_scoresOf models h;
                  forEach (h_ranksByMethodStep modelRanksByMethod) (enumerate 0 scores) h } })
       methods h }"

text \<open>
  \<^verbatim>\<open>if (modelDatasetRanks[modelKey]) {
          const avgRank = ranks.reduce((a, b) => a + b, 0) / ranks.length;
          modelDatasetRanks[modelKey].datasets[dataset] = avgRank;
        }\<close>
\<close>

definition h_storeAverageRank :: "val \<Rightarrow> string \<Rightarrow> string \<times> val \<Rightarrow> heap \<Rightarrow> heap option" where
  "h_storeAverageRank datasetRanks dataset = (\<lambda>(modelKey, arr) h. do {
     entry \<leftarrow> readProp datasetRanks modelKey h;
     if truthy entry
     then do { ranks \<leftarrow> numbers arr h;
               entry \<leftarrow> readProp datasetRanks modelKey h;
               datasets \<leftarrow> readProp entry ''datasets'' h;
               writeProp datasets dataset (VNum (reduceSum ranks / real (length ranks))) h }
     else Some h })"

text \<open>The body of \<^verbatim>\<open>for (const dataset of allDatasets)\<close>.\<close>

definition h_datasetRanks :: "val \<Rightarrow> val \<Rightarrow> string \<Rightarrow> heap \<Rightarrow> heap option" where
  "h_datasetRanks datasetRanks rawData dataset h = do {
     let (modelRanksByMethod, h) = alloc (HObj []) h;
     h \<leftarrow> h_collectDatasetRanks modelRanksByMethod rawData dataset h;
     es \<leftarrow> ownEntries modelRanksByMethod h;
     forEach (h_storeAverageRank datasetRanks dataset) es h }"

definition h_computeModelDatasetRanks :: "val \<Rightarrow> val \<Rightarrow> heap \<Rightarrow> (val \<times> heap) option" where
  "h_computeModelDatasetRanks rawData modelRanks h = do {
     let (datasetRanks, h) = alloc (HObj []) h;
     ms \<leftarrow> arrayElements modelRanks h;
     h \<leftarrow> forEach (h_initDatasetEntry datasetRanks) ms h;
     allDatasets \<leftarrow> h_allDatasets rawData h;
     h \<leftarrow> forEach (h_datasetRanks datasetRanks rawData) allDatasets h;
     Some (datasetRanks, h) }"

definition h_computeDetailedStats :: "val \<Rightarrow> val \<Rightarrow> heap \<Rightarrow> (val \<times> heap) option" where
  "h_computeDetailedStats rawData stats h = do {
     let (categoryRanks, h) = alloc (HObj []) h;
     modelRanks \<leftarrow> readProp stats ''model_ranks'' h;
     ms \<leftarrow> arrayElements modelRanks h;
     h \<leftarrow> forEach (h_initCategoryEntry categoryRanks) ms h;
     h \<leftarrow> h_collectCategoryRanks categoryRanks rawData h;
     h \<leftarrow> h_averageCategories categoryRanks h;
     let (methodPerformance, h) = alloc (HObj []) h;
     h \<leftarrow> h_collectMethodPerformance methodPerformance rawData h;
     h \<leftarrow> h_averageMethods methodPerformance h;
     modelRanks \<leftarrow> readProp stats ''model_ranks'' h;
     (datasetRanks, h) \<leftarrow> h_computeModelDatasetRanks rawData modelRanks h;
     let (result, h) = alloc (HObj [(''modelCategoryRanks'', categoryRanks),
                                    (''modelMethodPerformance'', methodPerformance),
                                    (''modelDatasetRanks'', datasetRanks)]) h;
     Some (result, h) }"


subsection \<open>The loops read on own properties\<close>

text \<open>
  The definitions of this subsection are not further translations of the source. They are
  the loops of \<^verbatim>\<open>computeDetailedStats\<close> and \<^verbatim>\<open>computeModelDatasetRanks\<close> with every read
  \<^verbatim>\<open>o[k]\<close> taken as a read of an own property, and without the error cases that an inherited
  member causes. The properties show that the functions of the source agree with them when the
  keys involved are not names of \<^verbatim>\<open>Object.prototype\<close>; the invariants of the loops are
  proved on them.
\<close>

definition initCategoryRanks_own :: "modelRank list \<Rightarrow> categoryEntry obj" where
  "initCategoryRanks_own modelRanks =
     foldl (\<lambda>acc m. AList.update (model_key m)
              \<lparr>ce_model = model_display m, ce_overall = avg_rank m,
               ce_ranks = (\<lambda>_. []), ce_avg = (\<lambda>_. None)\<rparr> acc) [] modelRanks"

definition rankStep_own :: "category \<Rightarrow> categoryEntry obj \<Rightarrow> nat \<times> scoreItem \<Rightarrow> categoryEntry obj" where
  "rankStep_own category acc = (\<lambda>(idx, item).
     case map_of acc (model item) of
       None \<Rightarrow> acc
     | Some e \<Rightarrow> AList.update (model item) (pushRank category (idx + 1) e) acc)"

definition datasetStep_own :: "categoryEntry obj \<Rightarrow> string \<times> models \<Rightarrow> categoryEntry obj" where
  "datasetStep_own acc = (\<lambda>(dataset, models).
     case getDatasetCategory dataset of
       Other \<Rightarrow> acc
     | Category category \<Rightarrow> foldl (rankStep_own category) acc (enumerate 0 (scoresOf models)))"

definition collectCategoryRanks_own :: "rawData \<Rightarrow> categoryEntry obj \<Rightarrow> categoryEntry obj" where
  "collectCategoryRanks_own rawData acc =
     foldl (\<lambda>acc (method, methodData). foldl datasetStep_own acc methodData) acc rawData"

definition computeCategoryRanks_own :: "rawData \<Rightarrow> modelRank list \<Rightarrow> categoryEntry obj" where
  "computeCategoryRanks_own rawData modelRanks =
     averageCategories (collectCategoryRanks_own rawData (initCategoryRanks_own modelRanks))"

definition ensureEntry_own :: "string \<Rightarrow> methodEntry obj \<Rightarrow> methodEntry obj" where
  "ensureEntry_own modelKey mmp =
     (if map_of mmp modelKey = None then AList.update modelKey newMethodEntry mmp else mmp)"

definition pushScore_own :: "string \<Rightarrow> string \<Rightarrow> real \<Rightarrow> methodEntry obj \<Rightarrow> error + methodEntry obj" where
  "pushScore_own method modelKey v mmp =
     (case map_of mmp modelKey of
        None \<Rightarrow> Inl TypeError
      | Some e \<Rightarrow>
          (case map_of (me_scores e) method of
             None \<Rightarrow> Inl TypeError
           | Some xs \<Rightarrow>
               Inr (AList.update modelKey
                      (e\<lparr>me_scores := AList.update method (xs @ [v]) (me_scores e)\<rparr>) mmp)))"

definition performanceStep_own :: "string \<Rightarrow> methodEntry obj \<Rightarrow> string \<times> metrics \<Rightarrow> error + methodEntry obj" where
  "performanceStep_own method mmp = (\<lambda>(modelKey, metrics).
     case map_of metrics ''Mean_Dice'' of
       None \<Rightarrow> Inr mmp
     | Some ob \<Rightarrow> pushScore_own method modelKey (mean ob) (ensureEntry_own modelKey mmp))"

definition collectMethodPerformance_own :: "rawData \<Rightarrow> error + methodEntry obj" where
  "collectMethodPerformance_own rawData =
     foldE (\<lambda>acc (method, methodData).
              foldE (\<lambda>acc (dataset, models). foldE (performanceStep_own method) acc models) acc methodData)
       [] rawData"

definition computeMethodPerformance_own :: "rawData \<Rightarrow> error + methodEntry obj" where
  "computeMethodPerformance_own rawData =
     (case collectMethodPerformance_own rawData of
        Inl e \<Rightarrow> Inl e
      | Inr mmp \<Rightarrow> averageMethods mmp)"

definition initDatasetRanks_own :: "modelRank list \<Rightarrow> datasetEntry obj" where
  "initDatasetRanks_own modelRanks =
     foldl (\<lambda>acc m. AList.update (model_key m)
              \<lparr>de_model_display = model_display m, de_datasets = []\<rparr> acc) [] modelRanks"

definition ranksByMethodStep_own :: "nat list obj \<Rightarrow> nat \<times> scoreItem \<Rightarrow> nat list obj" where
  "ranksByMethodStep_own acc = (\<lambda>(idx, item).
     let ranks = (case map_of acc (model item) of None \<Rightarrow> [] | Some rs \<Rightarrow> rs)
     in AList.update (model item) (ranks @ [idx + 1]) acc)"

definition collectDatasetRanks_own :: "rawData \<Rightarrow> string \<Rightarrow> nat list obj" where
  "collectDatasetRanks_own rawData dataset =
     foldl (\<lambda>acc (method, methodData).
              case map_of methodData dataset of
                None \<Rightarrow> acc
              | Some models \<Rightarrow> foldl ranksByMethodStep_own acc (enumerate 0 (scoresOf models)))
       [] rawData"

definition storeAverageRank_own :: "string \<Rightarrow> datasetEntry obj \<Rightarrow> string \<times> nat list \<Rightarrow> datasetEntry obj" where
  "storeAverageRank_own dataset acc = (\<lambda>(modelKey, ranks).
     case map_of acc modelKey of
       None \<Rightarrow> acc
     | Some e \<Rightarrow>
         AList.update modelKey
           (e\<lparr>de_datasets := assignNumber dataset
                 (reduceSum (map real ranks) / real (length ranks)) (de_datasets e)\<rparr>) acc)"

definition computeModelDatasetRanks_own :: "rawData \<Rightarrow> modelRank list \<Rightarrow> datasetEntry obj" where
  "computeModelDatasetRanks_own rawData modelRanks =
     foldl (\<lambda>acc dataset. foldl (storeAverageRank_own dataset) acc (collectDatasetRanks_own rawData dataset))
       (initDatasetRanks_own modelRanks) (allDatasetsOf rawData)"

definition computeDetailedStats_own :: "rawData \<Rightarrow> stats \<Rightarrow> error + detailedStats" where
  "computeDetailedStats_own rawData stats =
     (let mcr = computeCategoryRanks_own rawData (model_ranks stats)
      in case computeMethodPerformance_own rawData of
           Inl e \<Rightarrow> Inl e
         | Inr mmp \<Rightarrow>
             Inr \<lparr>modelCategoryRanks = mcr,
                  modelMethodPerformance = mmp,
                  modelDatasetRanks = computeModelDatasetRanks_own rawData (model_ranks stats)\<rparr>)"

subsection \<open>Descriptions used to state the properties\<close>

text \<open>
  The definitions of this subsection are not translations of source functions: they say,
  without accumulators, what the loops of the source are shown to collect.
\<close>

text \<open>The arithmetic mean of a list of numbers.\<close>

definition arithmeticMean :: "real list \<Rightarrow> real" where
  "arithmeticMean xs = sum_list xs / real (length xs)"


text \<open>The ranks (position + 1) at which a model key stands in a sorted \<^verbatim>\<open>scores\<close> array.\<close>

definition ranksIn :: "string \<Rightarrow> scoreItem list \<Rightarrow> nat list" where
  "ranksIn mk scores =
     map (\<lambda>(idx, item). idx + 1) (filter (\<lambda>(idx, item). model item = mk) (enumerate 0 scores))"





text \<open>The \<^verbatim>\<open>Mean_Dice.mean\<close> values of a model under a method, in the order of the datasets.\<close>

definition spec_methodScores :: "rawData \<Rightarrow> string \<Rightarrow> string \<Rightarrow> real list" where
  "spec_methodScores rawData mk method =
     concat (map (\<lambda>(method', methodData).
       if method' = method
       then concat (map (\<lambda>(dataset, models).
              concat (map (\<lambda>(modelKey, metrics).
                case map_of metrics ''Mean_Dice'' of
                  None \<Rightarrow> []
                | Some ob \<Rightarrow> if modelKey = mk then [mean ob] else []) models)) methodData)
       else []) rawData)"

text \<open>The model has a \<^verbatim>\<open>Mean_Dice\<close> observation under some method and dataset.\<close>

definition observed :: "rawData \<Rightarrow> string \<Rightarrow> bool" where
  "observed rawData mk \<longleftrightarrow>
     (\<exists>(method, methodData) \<in> set rawData. \<exists>(dataset, models) \<in> set methodData.
        \<exists>(modelKey, metrics) \<in> set models. modelKey = mk \<and> map_of metrics ''Mean_Dice'' \<noteq> None)"

text \<open>The observations in the order in which the three nested loops meet them:
  (method, model key, mean).\<close>

definition perfEvents :: "rawData \<Rightarrow> (string \<times> string \<times> real) list" where
  "perfEvents rawData =
     concat (map (\<lambda>(method, methodData).
       concat (map (\<lambda>(dataset, models).
         concat (map (\<lambda>(modelKey, metrics).
           case map_of metrics ''Mean_Dice'' of
             None \<Rightarrow> []
           | Some ob \<Rightarrow> [(method, modelKey, mean ob)]) models)) methodData)) rawData)"

text \<open>The loop body for one observation: create the entry when it is missing, then push.\<close>

definition recordScore :: "methodEntry obj \<Rightarrow> string \<times> string \<times> real \<Rightarrow> error + methodEntry obj" where
  "recordScore mmp = (\<lambda>(method, modelKey, v). pushScore_own method modelKey v (ensureEntry_own modelKey mmp))"

text \<open>The values of one model and method among a list of observations, and the entry
  that holds them.\<close>

definition eventScores :: "(string \<times> string \<times> real) list \<Rightarrow> string \<Rightarrow> string \<Rightarrow> real list" where
  "eventScores evs mk method =
     map (\<lambda>ev. snd (snd ev)) (filter (\<lambda>ev. fst ev = method \<and> fst (snd ev) = mk) evs)"

definition eventEntry :: "(string \<times> string \<times> real) list \<Rightarrow> string \<Rightarrow> methodEntry" where
  "eventEntry evs mk = \<lparr>me_scores = map (\<lambda>m. (m, eventScores evs mk m)) CONFIG_methods, me_avg = []\<rparr>"

text \<open>The averages of an entry whose arrays are given by \<open>f\<close>.\<close>

definition spec_average :: "real list \<Rightarrow> real option" where
  "spec_average xs = (if xs = [] then None else Some (arithmeticMean xs))"


text \<open>The state of \<^verbatim>\<open>modelMethodPerformance\<close> after a list of observations.\<close>

definition perfInv :: "(string \<times> string \<times> real) list \<Rightarrow> methodEntry obj \<Rightarrow> bool" where
  "perfInv evs mmp \<longleftrightarrow> distinct (map fst mmp) \<and>
     (\<forall>k. map_of mmp k = (if k \<in> (\<lambda>ev. fst (snd ev)) ` set evs then Some (eventEntry evs k) else None))"

text \<open>An entry after the averaging loop, when that loop does not throw.\<close>

definition averagedEntry :: "methodEntry \<Rightarrow> methodEntry" where
  "averagedEntry e = (case foldE averageMethod e CONFIG_methods of Inl _ \<Rightarrow> e | Inr e' \<Rightarrow> e')"


text \<open>The model has a \<^verbatim>\<open>Mean_Dice\<close> observation under the given method, in some dataset.\<close>

definition observedUnder :: "rawData \<Rightarrow> string \<Rightarrow> string \<Rightarrow> bool" where
  "observedUnder rawData method mk \<longleftrightarrow>
     (\<exists>(method', methodData) \<in> set rawData. \<exists>(dataset, models) \<in> set methodData.
        \<exists>(modelKey, metrics) \<in> set models.
          method' = method \<and> modelKey = mk \<and> map_of metrics ''Mean_Dice'' \<noteq> None)"


text \<open>The ranks of a model for one dataset, one for each method that has the dataset and
  ranks the model, in the order of the methods.\<close>

definition spec_datasetRanks :: "rawData \<Rightarrow> string \<Rightarrow> string \<Rightarrow> nat list" where
  "spec_datasetRanks rawData dataset mk =
     concat (map (\<lambda>(method, methodData).
       case map_of methodData dataset of
         None \<Rightarrow> []
       | Some models \<Rightarrow> ranksIn mk (scoresOf models)) rawData)"

text \<open>The model has a \<^verbatim>\<open>Mean_Dice\<close> observation for the dataset under some method.\<close>

definition observedIn :: "rawData \<Rightarrow> string \<Rightarrow> string \<Rightarrow> bool" where
  "observedIn rawData dataset mk \<longleftrightarrow>
     (\<exists>(method, methodData) \<in> set rawData.
        case map_of methodData dataset of
          None \<Rightarrow> False
        | Some models \<Rightarrow> (\<exists>(modelKey, metrics) \<in> set models.
                            modelKey = mk \<and> map_of metrics ''Mean_Dice'' \<noteq> None))"

text \<open>The items that the \<^verbatim>\<open>forEach\<close> callbacks of one dataset visit, over all methods.\<close>

definition rankEvents :: "rawData \<Rightarrow> string \<Rightarrow> (nat \<times> scoreItem) list" where
  "rankEvents rawData dataset =
     concat (map (\<lambda>(method, methodData).
       case map_of methodData dataset of
         None \<Rightarrow> []
       | Some models \<Rightarrow> enumerate 0 (scoresOf models)) rawData)"

definition eventRanks :: "(nat \<times> scoreItem) list \<Rightarrow> string \<Rightarrow> nat list" where
  "eventRanks evs mk = map (\<lambda>(idx, item). idx + 1) (filter (\<lambda>(idx, item). model item = mk) evs)"



text \<open>The observations of a metric for a dataset in the order in which
  \<^verbatim>\<open>processPerformanceData\<close> meets them: methods first, then models.\<close>

definition spec_metricData :: "rawData \<Rightarrow> string \<Rightarrow> string \<Rightarrow> metricDatum list" where
  "spec_metricData rawData dataset metricKey =
     concat (map (\<lambda>(meth, methodData).
       case map_of methodData dataset of
         None \<Rightarrow> []
       | Some models \<Rightarrow>
           concat (map (\<lambda>(modelKey, modelMetrics).
             case map_of modelMetrics metricKey of
               None \<Rightarrow> []
             | Some ob \<Rightarrow> [toMetricDatum meth modelKey ob]) models)) rawData)"

text \<open>Some (method, model) pair has an observation of the metric for the dataset.\<close>

definition hasObservation :: "rawData \<Rightarrow> string \<Rightarrow> string \<Rightarrow> bool" where
  "hasObservation rawData dataset metricKey \<longleftrightarrow>
     (\<exists>(meth, methodData) \<in> set rawData.
        case map_of methodData dataset of
          None \<Rightarrow> False
        | Some models \<Rightarrow> (\<exists>(modelKey, modelMetrics) \<in> set models.
                            map_of modelMetrics metricKey \<noteq> None))"


text \<open>No model key with a \<^verbatim>\<open>Mean_Dice\<close> observation is a name of \<^verbatim>\<open>Object.prototype\<close>.\<close>

definition plainModels :: "rawData \<Rightarrow> bool" where
  "plainModels rawData \<longleftrightarrow>
     (\<forall>(meth, methodData) \<in> set rawData. \<forall>(dataset, models) \<in> set methodData.
        \<forall>(modelKey, metrics) \<in> set models.
          map_of metrics ''Mean_Dice'' \<noteq> None \<longrightarrow> modelKey \<notin> set objectPrototypeNames)"

text \<open>The raw observations of a metric for a dataset, each with its method and model key, in
  the order of the table: methods first, then models.\<close>

definition spec_observations :: "rawData \<Rightarrow> string \<Rightarrow> string \<Rightarrow> (string \<times> string \<times> observation) list" where
  "spec_observations rawData dataset metricKey =
     concat (map (\<lambda>(meth, methodData).
       case map_of methodData dataset of
         None \<Rightarrow> []
       | Some models \<Rightarrow>
           concat (map (\<lambda>(modelKey, modelMetrics).
             case map_of modelMetrics metricKey of
               None \<Rightarrow> []
             | Some ob \<Rightarrow> [(meth, modelKey, ob)]) models)) rawData)"


text \<open>
  For the store: a value that refers to no cell below \<open>n\<close>; an object or array that holds only
  such values; and a store that extends \<open>h0\<close> with cells that hold only values referring to
  no cell of \<open>h0\<close>, and has the cells of \<open>h0\<close> as they were.
\<close>

definition own :: "nat \<Rightarrow> val \<Rightarrow> bool" where
  "own n v = (case v of VRef a \<Rightarrow> n \<le> a | _ \<Rightarrow> True)"

definition closedObj :: "nat \<Rightarrow> hobj \<Rightarrow> bool" where
  "closedObj n ob =
     (case ob of HObj ps \<Rightarrow> (\<forall>v \<in> snd ` set ps. own n v) | HArr xs \<Rightarrow> (\<forall>v \<in> set xs. own n v))"

definition framed :: "heap \<Rightarrow> heap \<Rightarrow> bool" where
  "framed h0 h \<longleftrightarrow> length h0 \<le> length h \<and> (\<forall>a < length h0. h ! a = h0 ! a)
     \<and> (\<forall>a. length h0 \<le> a \<and> a < length h \<longrightarrow> closedObj (length h0) (h ! a))"

text \<open>
  For a second call: a value that refers to no cell at or above \<open>n\<close>, and a store whose cells
  hold only references to its own cells.
\<close>

definition below :: "nat \<Rightarrow> val \<Rightarrow> bool" where
  "below n v = (case v of VRef a \<Rightarrow> a < n | _ \<Rightarrow> True)"

definition closedHeap :: "heap \<Rightarrow> bool" where
  "closedHeap h \<longleftrightarrow>
     (\<forall>a < length h. case h ! a of
        HObj ps \<Rightarrow> (\<forall>v \<in> snd ` set ps. below (length h) v)
      | HArr xs \<Rightarrow> (\<forall>v \<in> set xs. below (length h) v))"

text \<open>
  The store \<open>s\<close> of a call that was started in \<open>h0\<close>, as the same call has it when it is
  started in the longer store \<open>h0 @ G\<close>: the cells of \<open>h0\<close> are where they were, the cells
  that the call has created come after \<open>G\<close>, and the references to them are moved by the
  length of \<open>G\<close>.
\<close>

definition moved :: "heap \<Rightarrow> heap \<Rightarrow> val \<Rightarrow> val" where
  "moved h0 G v =
     (case v of VRef a \<Rightarrow> if a < length h0 then VRef a else VRef (a + length G) | _ \<Rightarrow> v)"

definition movedObj :: "heap \<Rightarrow> heap \<Rightarrow> hobj \<Rightarrow> hobj" where
  "movedObj h0 G ob =
     (case ob of
        HObj ps \<Rightarrow> HObj (map (\<lambda>p. (fst p, moved h0 G (snd p))) ps)
      | HArr xs \<Rightarrow> HArr (map (moved h0 G) xs))"

definition relocate :: "heap \<Rightarrow> heap \<Rightarrow> heap \<Rightarrow> heap" where
  "relocate h0 G s = h0 @ G @ map (movedObj h0 G) (drop (length h0) s)"

text \<open>
  The structure that a value has in a store, read to a given depth: objects and arrays are
  replaced by their contents, so that the addresses of the cells do not show.
\<close>

datatype tree = TUndefined | TNull | TNum real | TStr string | TBuiltin
  | TObj "(string \<times> tree) list" | TArr "tree list" | TDeeper | TDangling

fun snapshot :: "nat \<Rightarrow> heap \<Rightarrow> val \<Rightarrow> tree" where
  "snapshot d h VUndefined = TUndefined"
| "snapshot d h VNull = TNull"
| "snapshot d h (VNum x) = TNum x"
| "snapshot d h (VStr s) = TStr s"
| "snapshot d h VBuiltin = TBuiltin"
| "snapshot 0 h (VRef a) = TDeeper"
| "snapshot (Suc d) h (VRef a) =
     (if a < length h
      then (case h ! a of
              HObj ps \<Rightarrow> TObj (map (\<lambda>p. (fst p, snapshot d h (snd p))) ps)
            | HArr xs \<Rightarrow> TArr (map (snapshot d h) xs))
      else TDangling)"

subsection \<open>Example inputs\<close>



text \<open>
  A table with two methods. \<^verbatim>\<open>GlaS\<close> and \<^verbatim>\<open>CRAG\<close> are Gland datasets, \<^verbatim>\<open>Unknown\<close> is in no
  category; \<^verbatim>\<open>m4\<close> has no \<^verbatim>\<open>Mean_Dice\<close> under \<^verbatim>\<open>frozen\<close>. The summary lists \<^verbatim>\<open>m1\<close>, \<^verbatim>\<open>m2\<close>
  and \<^verbatim>\<open>m5\<close>: \<^verbatim>\<open>m5\<close> is not in the table, \<^verbatim>\<open>m3\<close> and \<^verbatim>\<open>m4\<close> are not in the summary.
\<close>

definition dice :: "real \<Rightarrow> metrics" where
  "dice x = [(''Mean_Dice'', \<lparr>mean = x, ci_lower = x - 0.01, ci_upper = x + 0.01\<rparr>)]"

definition exampleRaw :: rawData where
  "exampleRaw =
     [(''frozen'',
        [(''GlaS'', [(''m1'', dice 0.9), (''m2'', dice 0.8), (''m3'', dice 0.7),
                     (''m4'', [(''mIoU'', \<lparr>mean = 0.5, ci_lower = 0.4, ci_upper = 0.6\<rparr>)])]),
         (''CRAG'', [(''m2'', dice 0.6)]),
         (''Unknown'', [(''m1'', dice 0.5)])]),
      (''lora'',
        [(''GlaS'', [(''m1'', dice 0.9), (''m2'', dice 0.6), (''m3'', dice 0.85), (''m4'', dice 0.8)])])]"

definition exampleRank :: "string \<Rightarrow> real \<Rightarrow> nat \<Rightarrow> modelRank" where
  "exampleRank k r p =
     \<lparr>model_key = k, model_display = k, avg_rank = r, avg_rank_display = '''', position = p,
      total_comparisons = 0\<rparr>"

definition exampleStats :: stats where
  "exampleStats =
     \<lparr>model_ranks = [exampleRank ''m1'' 1.5 1, exampleRank ''m2'' 2.5 2, exampleRank ''m5'' 3 3],
      dataset_sota = [], method_comparison = []\<rparr>"


text \<open>A table in which the model key \<^verbatim>\<open>constructor\<close> has a \<^verbatim>\<open>Mean_Dice\<close> observation, and a
  summary without models.\<close>

definition constructorRaw :: rawData where
  "constructorRaw = [(''frozen'', [(''GlaS'', [(''constructor'', dice 0.5)])])]"

definition emptyStats :: stats where
  "emptyStats = \<lparr>model_ranks = [], dataset_sota = [], method_comparison = []\<rparr>"


text \<open>
  A store with a raw table (cell 6: the method \<^verbatim>\<open>frozen\<close> with the dataset \<^verbatim>\<open>GlaS\<close> and the
  models \<^verbatim>\<open>m1\<close> and \<^verbatim>\<open>m3\<close>) and a summary (cell 11, with the array of model ranks in cell 8,
  which lists \<^verbatim>\<open>m1\<close>).
\<close>

definition exampleHeap :: heap where
  "exampleHeap =
     [HObj [(''mean'', VNum 0.9), (''ci_lower'', VNum 0.89), (''ci_upper'', VNum 0.91)],
      HObj [(''Mean_Dice'', VRef 0)],
      HObj [(''mean'', VNum 0.8), (''ci_lower'', VNum 0.79), (''ci_upper'', VNum 0.81)],
      HObj [(''Mean_Dice'', VRef 2)],
      HObj [(''m1'', VRef 1), (''m3'', VRef 3)],
      HObj [(''GlaS'', VRef 4)],
      HObj [(''frozen'', VRef 5)],
      HObj [(''model_key'', VStr ''m1''), (''model_display'', VStr ''Model 1''),
            (''avg_rank'', VNum 1.5)],
      HArr [VRef 7],
      HObj [],
      HObj [],
      HObj [(''model_ranks'', VRef 8), (''dataset_sota'', VRef 9), (''method_comparison'', VRef 10)]]"

text \<open>A store with the table in which the model key \<^verbatim>\<open>constructor\<close> has a \<^verbatim>\<open>Mean_Dice\<close>
  observation (cell 4), and a summary without models (cell 6).\<close>

definition constructorHeap :: heap where
  "constructorHeap =
     [HObj [(''mean'', VNum 0.5), (''ci_lower'', VNum 0.49), (''ci_upper'', VNum 0.51)],
      HObj [(''Mean_Dice'', VRef 0)],
      HObj [(''constructor'', VRef 1)],
      HObj [(''GlaS'', VRef 2)],
      HObj [(''frozen'', VRef 3)],
      HArr [],
      HObj [(''model_ranks'', VRef 5)]]"


text \<open>The structure of the result of \<^verbatim>\<open>computeDetailedStats\<close> for the example store.\<close>

definition exampleResult :: tree where
  "exampleResult =
     TObj
      [(''modelCategoryRanks'',
        TObj
         [(''m1'',
           TObj
            [(''model'', TStr ''Model 1''), (''overall'', TNum 1.5),
             (''Nuclear'', TArr []), (''Gland'', TArr [TNum 1]),
             (''Tissue'', TArr []), (''NuclearAvg'', TNum 999),
             (''GlandAvg'', TNum 1), (''TissueAvg'', TNum 999)])]),
       (''modelMethodPerformance'',
        TObj
         [(''m1'',
           TObj
            [(''frozen'', TArr [TNum 0.9]), (''lora'', TArr []),
             (''dora'', TArr []), (''cnn'', TArr []),
             (''transformer'', TArr []), (''frozenAvg'', TNum 0.9),
             (''loraAvg'', TNull), (''doraAvg'', TNull), (''cnnAvg'', TNull),
             (''transformerAvg'', TNull)]),
          (''m3'',
           TObj
            [(''frozen'', TArr [TNum 0.8]), (''lora'', TArr []),
             (''dora'', TArr []), (''cnn'', TArr []),
             (''transformer'', TArr []), (''frozenAvg'', TNum 0.8),
             (''loraAvg'', TNull), (''doraAvg'', TNull), (''cnnAvg'', TNull),
             (''transformerAvg'', TNull)])]),
       (''modelDatasetRanks'',
        TObj
         [(''m1'',
           TObj
            [(''model_display'', TStr ''Model 1''),
             (''datasets'', TObj [(''GlaS'', TNum 1)])])])]"


section \<open>Properties\<close>

subsection \<open>Rank Aggregator\<close>
















subsection \<open>Category Classifier\<close>

text \<open>
  Claim C2. The classifier of leaderboard.js and the classifier of performance.js are to
  return the same category for every dataset name. They do not: the name \<^verbatim>\<open>Kumar\<close> is in
  the \<^verbatim>\<open>Nuclear\<close> list of leaderboard.js and in no list of performance.js.
\<close>

theorem classifiers_differ_on_Kumar:
  "getDatasetCategory ''Kumar'' = Category Nuclear \<and> perf_getDatasetCategory ''Kumar'' = Other"
  by (simp add: getDatasetCategory_def perf_getDatasetCategory_def
      CONFIG_datasetCategories_def PERF_CONFIG_datasetCategories_def)

lemma classifiers_agree_elsewhere:
  "dataset \<noteq> ''Kumar'' \<Longrightarrow> getDatasetCategory dataset = perf_getDatasetCategory dataset"
  by (simp add: getDatasetCategory_def perf_getDatasetCategory_def
      CONFIG_datasetCategories_def PERF_CONFIG_datasetCategories_def)

lemma categoryLoop_spec:
  "categoryLoop cfg dataset = Category c \<Longrightarrow> \<exists>ds. (c, ds) \<in> set cfg \<and> dataset \<in> set ds"
  by (induction cfg dataset rule: categoryLoop.induct) (auto split: if_splits)

lemma categoryLoop_Other:
  "categoryLoop cfg dataset = Other \<longleftrightarrow> (\<forall>(c, ds) \<in> set cfg. dataset \<notin> set ds)"
  by (induction cfg dataset rule: categoryLoop.induct) (auto split: if_splits)

subsection \<open>Category Rank Averager\<close>

text \<open>The lemmas of this subsection and of the four that follow are about the loops read on
  own properties; they are carried over to the functions of the source further below.\<close>

lemma foldl_plus_sum_list: "foldl (\<lambda>a b. a + b) a xs = a + sum_list (xs :: real list)"
  by (induction xs arbitrary: a) auto

lemma reduceSum_sum_list: "reduceSum xs = sum_list xs"
  by (simp add: reduceSum_def foldl_plus_sum_list)












subsection \<open>Cross-Method Performance Averager\<close>

lemma foldE_append:
  "foldE f acc (xs @ ys) = (case foldE f acc xs of Inl e \<Rightarrow> Inl e | Inr acc' \<Rightarrow> foldE f acc' ys)"
  by (induction xs arbitrary: acc) (auto split: sum.splits)

lemma foldE_concat_map:
  "foldE f acc (concat (map g xs)) = foldE (\<lambda>acc x. foldE f acc (g x)) acc xs"
  by (induction xs arbitrary: acc) (auto simp: foldE_append split: sum.splits)

lemma foldE_single: "foldE f acc [x] = f acc x"
  by (cases "f acc x") simp_all

lemma performanceStep_recordScore:
  "performanceStep_own meth mmp p
     = foldE recordScore mmp (case map_of (snd p) ''Mean_Dice'' of
                              None \<Rightarrow> [] | Some ob \<Rightarrow> [(meth, fst p, mean ob)])"
proof (cases "map_of (snd p) ''Mean_Dice''")
  case None
  then show ?thesis
    by (simp add: performanceStep_own_def case_prod_unfold)
next
  case (Some ob)
  have "foldE recordScore mmp [(meth, fst p, mean ob)] = recordScore mmp (meth, fst p, mean ob)"
    by (rule foldE_single)
  then show ?thesis
    using Some by (simp add: performanceStep_own_def recordScore_def case_prod_unfold)
qed

lemma collectMethodPerformance_events:
  "collectMethodPerformance_own rawData = foldE recordScore [] (perfEvents rawData)"
proof -
  have "foldE (performanceStep_own meth) acc models
      = foldE recordScore acc (concat (map (\<lambda>p. case map_of (snd p) ''Mean_Dice'' of
                              None \<Rightarrow> [] | Some ob \<Rightarrow> [(meth, fst p, mean ob)]) models))"
    for meth acc models
    unfolding foldE_concat_map
    by (rule arg_cong [where f = "\<lambda>f. foldE f acc models"])
       (simp add: fun_eq_iff performanceStep_recordScore)
  then show ?thesis
    by (simp add: collectMethodPerformance_own_def perfEvents_def foldE_concat_map case_prod_unfold)
qed


lemma update_map_keys:
  "distinct ms \<Longrightarrow> k \<in> set ms \<Longrightarrow>
     AList.update k v (map (\<lambda>m. (m, f m)) ms) = map (\<lambda>m. (m, if m = k then v else f m)) ms"
  by (induction ms) auto

lemma map_of_map_keys:
  "map_of (map (\<lambda>m. (m, f m)) ms) k = (if k \<in> set ms then Some (f k) else None)"
  by (induction ms) auto

lemma distinct_CONFIG_methods: "distinct CONFIG_methods"
  by (simp add: CONFIG_methods_def)

lemma eventScores_unseen:
  "mk \<notin> (\<lambda>ev. fst (snd ev)) ` set evs \<Longrightarrow> eventScores evs mk m = []"
  by (auto simp: eventScores_def filter_empty_conv)

lemma eventEntry_unseen:
  "mk \<notin> (\<lambda>ev. fst (snd ev)) ` set evs \<Longrightarrow> eventEntry evs mk = newMethodEntry"
  by (simp add: eventEntry_def eventScores_unseen newMethodEntry_def CONFIG_methods_def)

lemma eventEntry_snoc_other:
  "k \<noteq> mk \<Longrightarrow> eventEntry (evs @ [(method, mk, v)]) k = eventEntry evs k"
  by (simp add: eventEntry_def eventScores_def)

lemma eventEntry_snoc_same:
  assumes "meth \<in> set CONFIG_methods"
  shows "(eventEntry evs mk)\<lparr>me_scores :=
            AList.update meth (eventScores evs mk meth @ [v]) (me_scores (eventEntry evs mk))\<rparr>
         = eventEntry (evs @ [(meth, mk, v)]) mk"
proof -
  have "AList.update meth (eventScores evs mk meth @ [v])
          (map (\<lambda>m. (m, eventScores evs mk m)) CONFIG_methods)
      = map (\<lambda>m. (m, if m = meth then eventScores evs mk meth @ [v] else eventScores evs mk m))
          CONFIG_methods"
    using assms by (simp add: update_map_keys distinct_CONFIG_methods)
  also have "\<dots> = map (\<lambda>m. (m, eventScores (evs @ [(meth, mk, v)]) mk m)) CONFIG_methods"
    by (rule map_cong) (auto simp: eventScores_def)
  finally show ?thesis
    by (simp add: eventEntry_def)
qed

lemma recordScore_inv:
  assumes m: "meth \<in> set CONFIG_methods" and inv: "perfInv evs mmp"
  shows "\<exists>mmp'. recordScore mmp (meth, mk, v) = Inr mmp' \<and> perfInv (evs @ [(meth, mk, v)]) mmp'"
proof -
  let ?mmp1 = "ensureEntry_own mk mmp"
  let ?e = "eventEntry evs mk"
  let ?e' = "eventEntry (evs @ [(meth, mk, v)]) mk"
  have d1: "distinct (map fst ?mmp1)"
    using inv by (simp add: perfInv_def ensureEntry_own_def distinct_update)
  have e1: "map_of ?mmp1 mk = Some ?e"
  proof (cases "mk \<in> (\<lambda>ev. fst (snd ev)) ` set evs")
    case True
    then show ?thesis using inv by (simp add: perfInv_def ensureEntry_own_def)
  next
    case False
    then have "map_of mmp mk = None" using inv by (simp add: perfInv_def)
    then show ?thesis
      using False by (simp add: ensureEntry_own_def update_conv' eventEntry_unseen)
  qed
  have o1: "map_of ?mmp1 k = map_of mmp k" if "k \<noteq> mk" for k
    using that by (simp add: ensureEntry_own_def update_conv')
  have s1: "map_of (me_scores ?e) meth = Some (eventScores evs mk meth)"
    using m by (simp add: eventEntry_def map_of_map_keys)
  have r: "recordScore mmp (meth, mk, v) = Inr (AList.update mk ?e' ?mmp1)"
    using e1 s1 eventEntry_snoc_same [OF m, of evs mk v]
    by (simp add: recordScore_def pushScore_own_def)
  have "perfInv (evs @ [(meth, mk, v)]) (AList.update mk ?e' ?mmp1)"
    unfolding perfInv_def
  proof (intro conjI allI)
    show "distinct (map fst (AList.update mk ?e' ?mmp1))"
      using d1 by (simp add: distinct_update)
    fix k
    show "map_of (AList.update mk ?e' ?mmp1) k
        = (if k \<in> (\<lambda>ev. fst (snd ev)) ` set (evs @ [(meth, mk, v)])
           then Some (eventEntry (evs @ [(meth, mk, v)]) k) else None)"
    proof (cases "k = mk")
      case True
      then show ?thesis by (simp add: update_conv')
    next
      case False
      then show ?thesis
        using inv o1 [OF False] by (simp add: update_conv' perfInv_def eventEntry_snoc_other)
    qed
  qed
  with r show ?thesis by blast
qed

lemma foldE_recordScore_inv:
  assumes "\<forall>ev \<in> set evs. fst ev \<in> set CONFIG_methods"
  shows "\<exists>mmp. foldE recordScore [] evs = Inr mmp \<and> perfInv evs mmp"
  using assms
proof (induction evs rule: rev_induct)
  case Nil
  show ?case by (simp add: perfInv_def)
next
  case (snoc ev evs)
  then obtain mmp where mmp: "foldE recordScore [] evs = Inr mmp" "perfInv evs mmp"
    by auto
  obtain meth mk v where ev: "ev = (meth, mk, v)"
    by (cases ev) auto
  with snoc.prems have "meth \<in> set CONFIG_methods" by simp
  from recordScore_inv [OF this mmp(2), of mk v] mmp(1) ev show ?case
    by (auto simp: foldE_append foldE_single)
qed


lemma averageValue_spec:
  "(if length scores > 0 then Some (reduceSum scores / real (length scores)) else None)
     = spec_average scores"
  by (simp add: spec_average_def arithmeticMean_def reduceSum_sum_list)

lemma foldE_averageMethod:
  assumes "\<forall>m \<in> set ms. map_of (me_scores e) m \<noteq> None"
  shows "\<exists>e'. foldE averageMethod e ms = Inr e' \<and> me_scores e' = me_scores e
           \<and> (\<forall>m. map_of (me_avg e') m
                    = (if m \<in> set ms then map_option spec_average (map_of (me_scores e) m)
                       else map_of (me_avg e) m))"
  using assms
proof (induction ms arbitrary: e)
  case Nil
  show ?case by simp
next
  case (Cons m ms)
  then obtain scores where sc: "map_of (me_scores e) m = Some scores"
    by auto
  let ?e1 = "e\<lparr>me_avg := AList.update m (spec_average scores) (me_avg e)\<rparr>"
  have step: "averageMethod e m = Inr ?e1"
    using averageValue_spec [of scores] by (simp add: averageMethod_def sc del: length_greater_0_conv)
  have "\<forall>m \<in> set ms. map_of (me_scores ?e1) m \<noteq> None"
    using Cons.prems by simp
  from Cons.IH [OF this] obtain e' where e': "foldE averageMethod ?e1 ms = Inr e'"
    "me_scores e' = me_scores ?e1"
    "\<forall>m'. map_of (me_avg e') m'
            = (if m' \<in> set ms then map_option spec_average (map_of (me_scores ?e1) m')
               else map_of (me_avg ?e1) m')"
    by blast
  have "foldE averageMethod e (m # ms) = Inr e'"
    by (simp add: step e'(1))
  moreover have "me_scores e' = me_scores e"
    using e'(2) by simp
  moreover have "\<forall>m'. map_of (me_avg e') m'
            = (if m' \<in> set (m # ms) then map_option spec_average (map_of (me_scores e) m')
               else map_of (me_avg e) m')"
  proof
    fix m'
    show "map_of (me_avg e') m'
            = (if m' \<in> set (m # ms) then map_option spec_average (map_of (me_scores e) m')
               else map_of (me_avg e) m')"
    proof (cases "m' \<in> set ms")
      case True
      then show ?thesis using e'(3) by simp
    next
      case False
      then show ?thesis using e'(3) sc by (cases "m' = m") (simp_all add: update_conv')
    qed
  qed
  ultimately show ?case by blast
qed

lemma foldE_map_success:
  assumes "\<forall>x \<in> set xs. \<exists>y. g x = Inr y"
  shows "foldE (\<lambda>acc x. case g x of Inl e \<Rightarrow> Inl e | Inr y \<Rightarrow> Inr (acc @ [h x y])) acc xs
           = Inr (acc @ map (\<lambda>x. h x (case g x of Inr y \<Rightarrow> y)) xs)"
  using assms
proof (induction xs arbitrary: acc)
  case Nil
  show ?case by simp
next
  case (Cons x xs)
  then obtain y where y: "g x = Inr y" by auto
  from Cons.prems have "\<forall>x \<in> set xs. \<exists>y. g x = Inr y" by simp
  from Cons.IH [OF this, of "acc @ [h x y]"] y show ?case by simp
qed

lemma eventEntry_complete:
  "m \<in> set CONFIG_methods \<Longrightarrow> map_of (me_scores (eventEntry evs mk)) m = Some (eventScores evs mk m)"
  by (simp add: eventEntry_def map_of_map_keys)

lemma averagedEntry_eventEntry:
  "me_scores (averagedEntry (eventEntry evs mk)) = me_scores (eventEntry evs mk)
   \<and> (\<forall>m \<in> set CONFIG_methods.
         map_of (me_avg (averagedEntry (eventEntry evs mk))) m
           = Some (spec_average (eventScores evs mk m)))
   \<and> foldE averageMethod (eventEntry evs mk) CONFIG_methods = Inr (averagedEntry (eventEntry evs mk))"
proof -
  have "\<forall>m \<in> set CONFIG_methods. map_of (me_scores (eventEntry evs mk)) m \<noteq> None"
    by (simp add: eventEntry_complete)
  from foldE_averageMethod [OF this] obtain e' where
    e': "foldE averageMethod (eventEntry evs mk) CONFIG_methods = Inr e'"
        "me_scores e' = me_scores (eventEntry evs mk)"
        "\<forall>m. map_of (me_avg e') m
                = (if m \<in> set CONFIG_methods
                   then map_option spec_average (map_of (me_scores (eventEntry evs mk)) m)
                   else map_of (me_avg (eventEntry evs mk)) m)"
    by blast
  have a: "averagedEntry (eventEntry evs mk) = e'"
    by (simp add: averagedEntry_def e'(1))
  show ?thesis
    unfolding a using e' by (simp add: eventEntry_complete)
qed

lemma perfInv_entries:
  assumes "perfInv evs mmp" and "(k, e) \<in> set mmp"
  shows "e = eventEntry evs k"
proof -
  from assms(1) have "distinct (map fst mmp)"
    by (simp add: perfInv_def)
  with assms(2) have "map_of mmp k = Some e"
    by simp
  moreover from assms(1) have "map_of mmp k
      = (if k \<in> (\<lambda>ev. fst (snd ev)) ` set evs then Some (eventEntry evs k) else None)"
    by (simp add: perfInv_def)
  ultimately show ?thesis
    by (simp split: if_splits)
qed

lemma averageMethods_perfInv:
  assumes "perfInv evs mmp"
  shows "averageMethods mmp = Inr (map (\<lambda>(k, e). (k, averagedEntry e)) mmp)"
proof -
  have ok: "\<forall>x \<in> set mmp. \<exists>y. foldE averageMethod (snd x) CONFIG_methods = Inr y"
  proof
    fix x assume "x \<in> set mmp"
    then have "snd x = eventEntry evs (fst x)"
      using perfInv_entries [OF assms, of "fst x" "snd x"] by simp
    then show "\<exists>y. foldE averageMethod (snd x) CONFIG_methods = Inr y"
      using averagedEntry_eventEntry [of evs "fst x"] by auto
  qed
  have "averageMethods mmp
      = foldE (\<lambda>acc x. case foldE averageMethod (snd x) CONFIG_methods of
                         Inl e \<Rightarrow> Inl e | Inr y \<Rightarrow> Inr (acc @ [(fst x, y)])) [] mmp"
    by (simp add: averageMethods_def case_prod_unfold)
  also have "\<dots> = Inr ([] @ map (\<lambda>x. (fst x, case foldE averageMethod (snd x) CONFIG_methods of Inr y \<Rightarrow> y)) mmp)"
    by (rule foldE_map_success [OF ok])
  also have "map (\<lambda>x. (fst x, case foldE averageMethod (snd x) CONFIG_methods of Inr y \<Rightarrow> y)) mmp
      = map (\<lambda>(k, e). (k, averagedEntry e)) mmp"
  proof (rule map_cong [OF refl])
    fix x assume "x \<in> set mmp"
    with ok obtain y where "foldE averageMethod (snd x) CONFIG_methods = Inr y" by blast
    then show "(fst x, case foldE averageMethod (snd x) CONFIG_methods of Inr y \<Rightarrow> y)
        = (case x of (k, e) \<Rightarrow> (k, averagedEntry e))"
      by (simp add: averagedEntry_def case_prod_unfold)
  qed
  finally show ?thesis by simp
qed

text \<open>The result of the Cross-Method Performance Averager, per model key.\<close>

lemma computeMethodPerformance_events:
  assumes "\<forall>ev \<in> set (perfEvents rawData). fst ev \<in> set CONFIG_methods"
  shows "\<exists>mmp. computeMethodPerformance_own rawData = Inr mmp
           \<and> (\<forall>k. map_of mmp k
                    = (if k \<in> (\<lambda>ev. fst (snd ev)) ` set (perfEvents rawData)
                       then Some (averagedEntry (eventEntry (perfEvents rawData) k)) else None))"
proof -
  from foldE_recordScore_inv [OF assms] obtain mmp0 where
    mmp0: "foldE recordScore [] (perfEvents rawData) = Inr mmp0" "perfInv (perfEvents rawData) mmp0"
    by blast
  have "computeMethodPerformance_own rawData = Inr (map (\<lambda>(k, e). (k, averagedEntry e)) mmp0)"
    by (simp add: computeMethodPerformance_own_def collectMethodPerformance_events mmp0(1)
        averageMethods_perfInv [OF mmp0(2)])
  moreover have "map_of (map (\<lambda>(k, e). (k, averagedEntry e)) mmp0) k
      = (if k \<in> (\<lambda>ev. fst (snd ev)) ` set (perfEvents rawData)
         then Some (averagedEntry (eventEntry (perfEvents rawData) k)) else None)" for k
    using mmp0(2) by (simp add: map_of_map perfInv_def)
  ultimately show ?thesis by blast
qed

lemma eventScores_append:
  "eventScores (xs @ ys) mk m = eventScores xs mk m @ eventScores ys mk m"
  by (simp add: eventScores_def)

lemma eventScores_Nil: "eventScores [] mk m = []"
  by (simp add: eventScores_def)

lemma eventScores_model:
  "eventScores (case map_of metrics ''Mean_Dice'' of
                   None \<Rightarrow> [] | Some ob \<Rightarrow> [(meth, modelKey, mean ob)]) mk m
      = (if meth = m
         then (case map_of metrics ''Mean_Dice'' of
                 None \<Rightarrow> [] | Some ob \<Rightarrow> if modelKey = mk then [mean ob] else [])
         else [])"
  by (cases "map_of metrics ''Mean_Dice''") (simp_all add: eventScores_def)

lemma eventScores_models:
  "eventScores (concat (map (\<lambda>(modelKey, metrics).
           case map_of metrics ''Mean_Dice'' of
             None \<Rightarrow> [] | Some ob \<Rightarrow> [(meth, modelKey, mean ob)]) models)) mk m
      = (if meth = m
         then concat (map (\<lambda>(modelKey, metrics).
                case map_of metrics ''Mean_Dice'' of
                  None \<Rightarrow> [] | Some ob \<Rightarrow> if modelKey = mk then [mean ob] else []) models)
         else [])"
proof (induction models)
  case Nil
  show ?case by (simp add: eventScores_Nil)
next
  case (Cons p models)
  obtain modelKey metrics where p: "p = (modelKey, metrics)" by (cases p) auto
  show ?case
    unfolding p list.map concat.simps prod.case eventScores_append Cons.IH eventScores_model
    by (cases "meth = m") simp_all
qed

lemma eventScores_methodData:
  "eventScores (concat (map (\<lambda>(dataset, models).
         concat (map (\<lambda>(modelKey, metrics).
           case map_of metrics ''Mean_Dice'' of
             None \<Rightarrow> [] | Some ob \<Rightarrow> [(meth, modelKey, mean ob)]) models)) methodData)) mk m
      = (if meth = m
         then concat (map (\<lambda>(dataset, models).
              concat (map (\<lambda>(modelKey, metrics).
                case map_of metrics ''Mean_Dice'' of
                  None \<Rightarrow> []
                | Some ob \<Rightarrow> if modelKey = mk then [mean ob] else []) models)) methodData)
         else [])"
proof (induction methodData)
  case Nil
  show ?case by (simp add: eventScores_Nil)
next
  case (Cons p methodData)
  obtain ds models where p: "p = (ds, models)" by (cases p) auto
  show ?case
    unfolding p list.map concat.simps prod.case eventScores_append Cons.IH eventScores_models
    by (cases "meth = m") simp_all
qed

lemma eventScores_perfEvents:
  "eventScores (perfEvents rawData) mk m = spec_methodScores rawData mk m"
proof (induction rawData)
  case Nil
  show ?case by (simp add: perfEvents_def spec_methodScores_def eventScores_Nil)
next
  case (Cons q rawData)
  obtain meth methodData where q: "q = (meth, methodData)" by (cases q) auto
  from Cons.IH show ?case
    unfolding q perfEvents_def spec_methodScores_def list.map concat.simps prod.case
      eventScores_append eventScores_methodData
    by simp
qed

lemma in_perfEvents_iff:
  "ev \<in> set (perfEvents rawData) \<longleftrightarrow>
     (\<exists>(meth, methodData) \<in> set rawData. \<exists>(dataset, models) \<in> set methodData.
        \<exists>(modelKey, metrics) \<in> set models.
          \<exists>ob. map_of metrics ''Mean_Dice'' = Some ob \<and> ev = (meth, modelKey, mean ob))"
proof -
  have eq: "(Some x = map_of metrics ''Mean_Dice'') = (map_of metrics ''Mean_Dice'' = Some x)"
    for x :: observation and metrics
    by (rule eq_commute)
  show ?thesis
    by (simp add: perfEvents_def case_prod_unfold Bex_def eq split: option.splits)
qed

lemma perfEvents_observed:
  "mk \<in> (\<lambda>ev. fst (snd ev)) ` set (perfEvents rawData) \<longleftrightarrow> observed rawData mk"
proof
  assume "mk \<in> (\<lambda>ev. fst (snd ev)) ` set (perfEvents rawData)"
  then obtain ev where "ev \<in> set (perfEvents rawData)" "mk = fst (snd ev)" by blast
  then show "observed rawData mk"
    unfolding in_perfEvents_iff observed_def by fastforce
next
  assume "observed rawData mk"
  then obtain meth methodData dataset models metrics ob where
    *: "(meth, methodData) \<in> set rawData" "(dataset, models) \<in> set methodData"
       "(mk, metrics) \<in> set models" "map_of metrics ''Mean_Dice'' = Some ob"
    unfolding observed_def by fastforce
  then have "(meth, mk, mean ob) \<in> set (perfEvents rawData)"
    unfolding in_perfEvents_iff by fastforce
  then show "mk \<in> (\<lambda>ev. fst (snd ev)) ` set (perfEvents rawData)"
    by force
qed

lemma perfEvents_methods:
  "ev \<in> set (perfEvents rawData) \<Longrightarrow> fst ev \<in> fst ` set rawData"
  unfolding in_perfEvents_iff by force

subsection \<open>Initialisation and averaging of the category entries\<close>









subsection \<open>Real ranks stay below the sentinel\<close>






subsection \<open>Totality of the loops on the configured methods\<close>

lemma computeMethodPerformance_result:
  assumes "fst ` set rawData \<subseteq> set CONFIG_methods"
  shows "\<exists>mmp. computeMethodPerformance_own rawData = Inr mmp
           \<and> (\<forall>k. map_of mmp k
                    = (if observed rawData k
                       then Some (averagedEntry (eventEntry (perfEvents rawData) k)) else None))"
proof -
  have "\<forall>ev \<in> set (perfEvents rawData). fst ev \<in> set CONFIG_methods"
    using assms perfEvents_methods by blast
  from computeMethodPerformance_events [OF this] show ?thesis
    by (simp add: perfEvents_observed)
qed

lemma computeDetailedStats_result:
  assumes "fst ` set rawData \<subseteq> set CONFIG_methods"
  shows "\<exists>mmp. computeMethodPerformance_own rawData = Inr mmp
           \<and> computeDetailedStats_own rawData stats
               = Inr \<lparr>modelCategoryRanks = computeCategoryRanks_own rawData (model_ranks stats),
                      modelMethodPerformance = mmp,
                      modelDatasetRanks = computeModelDatasetRanks_own rawData (model_ranks stats)\<rparr>"
proof -
  from computeMethodPerformance_result [OF assms] obtain mmp where
    "computeMethodPerformance_own rawData = Inr mmp" by blast
  then show ?thesis
    by (simp add: computeDetailedStats_own_def)
qed

subsection \<open>Cross-Method Rank Averager\<close>

lemma foldl_concat_map:
  "foldl f acc (concat (map g xs)) = foldl (\<lambda>acc x. foldl f acc (g x)) acc xs"
  by (induction xs arbitrary: acc) simp_all

lemma collectDatasetRanks_events:
  "collectDatasetRanks_own rawData dataset = foldl ranksByMethodStep_own [] (rankEvents rawData dataset)"
proof -
  have "(\<lambda>acc p. case map_of (snd p) dataset of
                    None \<Rightarrow> acc
                  | Some models \<Rightarrow> foldl ranksByMethodStep_own acc (enumerate 0 (scoresOf models)))
      = (\<lambda>acc p. foldl ranksByMethodStep_own acc
                    (case map_of (snd p) dataset of
                       None \<Rightarrow> [] | Some models \<Rightarrow> enumerate 0 (scoresOf models)))"
    by (auto simp: fun_eq_iff split: option.splits)
  then have "foldl (\<lambda>acc p. case map_of (snd p) dataset of
                    None \<Rightarrow> acc
                  | Some models \<Rightarrow> foldl ranksByMethodStep_own acc (enumerate 0 (scoresOf models)))
               [] rawData
      = foldl (\<lambda>acc p. foldl ranksByMethodStep_own acc
                    (case map_of (snd p) dataset of
                       None \<Rightarrow> [] | Some models \<Rightarrow> enumerate 0 (scoresOf models)))
               [] rawData"
    by (rule arg_cong [where f = "\<lambda>f. foldl f [] rawData"])
  then show ?thesis
    by (simp add: collectDatasetRanks_own_def rankEvents_def foldl_concat_map case_prod_unfold)
qed

lemma eventRanks_append: "eventRanks (xs @ ys) mk = eventRanks xs mk @ eventRanks ys mk"
  by (simp add: eventRanks_def)

lemma eventRanks_enumerate: "eventRanks (enumerate 0 scores) mk = ranksIn mk scores"
  by (simp add: eventRanks_def ranksIn_def)

lemma eventRanks_rankEvents:
  "eventRanks (rankEvents rawData dataset) mk = spec_datasetRanks rawData dataset mk"
proof (induction rawData)
  case Nil
  show ?case by (simp add: rankEvents_def spec_datasetRanks_def eventRanks_def)
next
  case (Cons q rawData)
  obtain meth methodData where q: "q = (meth, methodData)" by (cases q) auto
  have "eventRanks (rankEvents (q # rawData) dataset) mk
      = eventRanks (case map_of methodData dataset of
                       None \<Rightarrow> [] | Some models \<Rightarrow> enumerate 0 (scoresOf models)) mk
        @ eventRanks (rankEvents rawData dataset) mk"
    by (simp add: q rankEvents_def eventRanks_append)
  also have "eventRanks (case map_of methodData dataset of
                       None \<Rightarrow> [] | Some models \<Rightarrow> enumerate 0 (scoresOf models)) mk
      = (case map_of methodData dataset of
           None \<Rightarrow> [] | Some models \<Rightarrow> ranksIn mk (scoresOf models))"
    by (cases "map_of methodData dataset") (simp_all add: eventRanks_enumerate, simp add: eventRanks_def)
  finally show ?case
    by (simp add: Cons.IH q spec_datasetRanks_def)
qed

lemma ranksByMethodStep_map_of:
  "map_of (ranksByMethodStep_own acc p) k
     = (if k = model (snd p)
        then Some ((case map_of acc k of None \<Rightarrow> [] | Some rs \<Rightarrow> rs) @ [fst p + 1])
        else map_of acc k)"
  by (simp add: ranksByMethodStep_own_def case_prod_unfold Let_def update_conv')

lemma ranksByMethodStep_distinct:
  "distinct (map fst acc) \<Longrightarrow> distinct (map fst (ranksByMethodStep_own acc p))"
  by (simp add: ranksByMethodStep_own_def case_prod_unfold Let_def distinct_update)

lemma foldl_ranksByMethodStep:
  "distinct (map fst (foldl ranksByMethodStep_own [] evs))
   \<and> map_of (foldl ranksByMethodStep_own [] evs) mk
       = (if eventRanks evs mk = [] then None else Some (eventRanks evs mk))"
proof (induction evs rule: rev_induct)
  case Nil
  show ?case by (simp add: eventRanks_def)
next
  case (snoc p evs)
  show ?case
  proof (cases "mk = model (snd p)")
    case True
    with snoc show ?thesis
      by (simp add: ranksByMethodStep_map_of ranksByMethodStep_distinct eventRanks_def
          case_prod_unfold)
  next
    case False
    with snoc show ?thesis
      by (simp add: ranksByMethodStep_map_of ranksByMethodStep_distinct eventRanks_def
          case_prod_unfold)
  qed
qed

lemma collectDatasetRanks_map_of:
  "map_of (collectDatasetRanks_own rawData dataset) mk
     = (if spec_datasetRanks rawData dataset mk = [] then None
        else Some (spec_datasetRanks rawData dataset mk))"
  using foldl_ranksByMethodStep [of "rankEvents rawData dataset" mk]
  by (simp add: collectDatasetRanks_events eventRanks_rankEvents)
















lemma ranksIn_empty_iff: "ranksIn mk scores = [] \<longleftrightarrow> mk \<notin> model ` set scores"
proof -
  have s: "snd ` set (enumerate 0 scores) = set scores"
    using map_snd_enumerate [of 0 scores] by (metis set_map)
  have "ranksIn mk scores = [] \<longleftrightarrow> (\<forall>p \<in> set (enumerate 0 scores). model (snd p) \<noteq> mk)"
    by (auto simp: ranksIn_def filter_empty_conv)
  also have "\<dots> \<longleftrightarrow> (\<forall>item \<in> snd ` set (enumerate 0 scores). model item \<noteq> mk)"
    by (simp only: ball_simps)
  finally show ?thesis
    unfolding s by auto
qed


lemma models_of_scoresOf:
  "mk \<in> model ` set (scoresOf models)
     \<longleftrightarrow> (\<exists>(modelKey, metrics) \<in> set models. modelKey = mk \<and> map_of metrics ''Mean_Dice'' \<noteq> None)"
  by (force simp: scoresOf_def scoreEntries_def hasMeanDice_def toScoreItem_def image_iff)

lemma spec_datasetRanks_observedIn:
  "spec_datasetRanks rawData dataset mk \<noteq> [] \<longleftrightarrow> observedIn rawData dataset mk"
proof -
  have "spec_datasetRanks rawData dataset mk \<noteq> []
      \<longleftrightarrow> (\<exists>p \<in> set rawData. case map_of (snd p) dataset of
                                 None \<Rightarrow> False
                               | Some models \<Rightarrow> ranksIn mk (scoresOf models) \<noteq> [])"
    by (auto simp: spec_datasetRanks_def case_prod_unfold split: option.splits)
  also have "\<dots> \<longleftrightarrow> observedIn rawData dataset mk"
    unfolding observedIn_def ranksIn_empty_iff
    by (auto simp: models_of_scoresOf case_prod_unfold split: option.splits)
  finally show ?thesis .
qed





subsection \<open>The functions of the source on plain keys\<close>

text \<open>When no model key with a \<^verbatim>\<open>Mean_Dice\<close> observation is a name of \<^verbatim>\<open>Object.prototype\<close>
  and the summary has no key \<^verbatim>\<open>__proto__\<close>, the functions of the source return what the
  loops read on own properties give.\<close>

lemma getProp_Own_iff: "getProp tbl k = Own v \<longleftrightarrow> map_of tbl k = Some v"
  by (simp add: getProp_def split: option.splits)

lemma getProp_Undefined_iff:
  "getProp tbl k = Undefined \<longleftrightarrow> map_of tbl k = None \<and> k \<notin> set objectPrototypeNames"
  by (simp add: getProp_def split: option.splits)

lemma getProp_plain:
  "k \<notin> set objectPrototypeNames
     \<Longrightarrow> getProp tbl k = (case map_of tbl k of None \<Rightarrow> Undefined | Some v \<Rightarrow> Own v)"
  by (simp add: getProp_def split: option.splits)

lemma foldE_Inr_foldl:
  assumes "\<And>acc x. x \<in> set xs \<Longrightarrow> f acc x = Inr (g acc x)"
  shows "foldE f acc xs = Inr (foldl g acc xs)"
  using assms by (induction xs arbitrary: acc) simp_all

lemma foldE_cong_set:
  assumes "\<And>acc x. x \<in> set xs \<Longrightarrow> f acc x = g acc x"
  shows "foldE f acc xs = foldE g acc xs"
  using assms by (induction xs arbitrary: acc) (simp_all split: sum.splits)

lemma initCategoryRanks_plain:
  assumes "''__proto__'' \<notin> model_key ` set modelRanks"
  shows "initCategoryRanks modelRanks = Inr (initCategoryRanks_own modelRanks)"
  unfolding initCategoryRanks_def initCategoryRanks_own_def
proof (rule foldE_Inr_foldl)
  fix acc :: "categoryEntry obj" and m
  assume "m \<in> set modelRanks"
  then have "model_key m \<in> model_key ` set modelRanks" by (rule imageI)
  with assms have "model_key m \<noteq> ''__proto__''" by metis
  then show "assignObject (model_key m)
         \<lparr>ce_model = model_display m, ce_overall = avg_rank m,
          ce_ranks = (\<lambda>_. []), ce_avg = (\<lambda>_. None)\<rparr> acc
      = Inr (AList.update (model_key m)
         \<lparr>ce_model = model_display m, ce_overall = avg_rank m,
          ce_ranks = (\<lambda>_. []), ce_avg = (\<lambda>_. None)\<rparr> acc)"
    by (simp add: assignObject_def)
qed

lemma initDatasetRanks_plain:
  assumes "''__proto__'' \<notin> model_key ` set modelRanks"
  shows "initDatasetRanks modelRanks = Inr (initDatasetRanks_own modelRanks)"
  unfolding initDatasetRanks_def initDatasetRanks_own_def
proof (rule foldE_Inr_foldl)
  fix acc :: "datasetEntry obj" and m
  assume "m \<in> set modelRanks"
  then have "model_key m \<in> model_key ` set modelRanks" by (rule imageI)
  with assms have "model_key m \<noteq> ''__proto__''" by metis
  then show "assignObject (model_key m) \<lparr>de_model_display = model_display m, de_datasets = []\<rparr> acc
      = Inr (AList.update (model_key m) \<lparr>de_model_display = model_display m, de_datasets = []\<rparr> acc)"
    by (simp add: assignObject_def)
qed

lemma plainModels_scores:
  assumes "plainModels rawData" and "(meth, methodData) \<in> set rawData"
    and "(dataset, models) \<in> set methodData" and "p \<in> set (enumerate 0 (scoresOf models))"
  shows "model (snd p) \<notin> set objectPrototypeNames"
proof -
  from assms(4) have "snd p \<in> set (scoresOf models)"
    using nth_mem [of "fst p" "scoresOf models"] by (auto simp: in_set_enumerate_eq)
  then have "model (snd p) \<in> model ` set (scoresOf models)"
    by (rule imageI)
  then obtain metrics where "(model (snd p), metrics) \<in> set models"
    and "map_of metrics ''Mean_Dice'' \<noteq> None"
    unfolding models_of_scoresOf by auto
  with assms(1-3) show ?thesis
    unfolding plainModels_def by fastforce
qed

lemma rankStep_plain:
  assumes "model (snd p) \<notin> set objectPrototypeNames"
  shows "rankStep category acc p = Inr (rankStep_own category acc p)"
  using assms
  by (cases p) (simp add: rankStep_def rankStep_own_def getProp_plain split: option.splits)

lemma datasetStep_plain:
  assumes "plainModels rawData" and "(meth, methodData) \<in> set rawData"
    and "q \<in> set methodData"
  shows "datasetStep acc q = Inr (datasetStep_own acc q)"
proof -
  obtain dataset models where q: "q = (dataset, models)" by (cases q) auto
  have "foldE (rankStep category) acc (enumerate 0 (scoresOf models))
      = Inr (foldl (rankStep_own category) acc (enumerate 0 (scoresOf models)))" for category
    by (rule foldE_Inr_foldl, rule rankStep_plain, rule plainModels_scores [OF assms(1,2)])
      (use assms(3) q in simp_all)
  then show ?thesis
    by (simp add: q datasetStep_def datasetStep_own_def split: label.splits)
qed

lemma collectCategoryRanks_plain:
  assumes "plainModels rawData"
  shows "collectCategoryRanks rawData acc = Inr (collectCategoryRanks_own rawData acc)"
  unfolding collectCategoryRanks_def collectCategoryRanks_own_def
proof (rule foldE_Inr_foldl)
  fix acc and x :: "string \<times> methodData"
  assume x: "x \<in> set rawData"
  obtain meth methodData where xe: "x = (meth, methodData)" by (cases x) auto
  have "foldE datasetStep acc methodData = Inr (foldl datasetStep_own acc methodData)"
    by (rule foldE_Inr_foldl) (rule datasetStep_plain [OF assms], use x xe in simp_all)
  then show "(case x of (method, methodData) \<Rightarrow> foldE datasetStep acc methodData)
      = Inr (case x of (method, methodData) \<Rightarrow> foldl datasetStep_own acc methodData)"
    by (simp add: xe)
qed

lemma computeCategoryRanks_plain:
  assumes "plainModels rawData" and "''__proto__'' \<notin> model_key ` set modelRanks"
  shows "computeCategoryRanks rawData modelRanks = Inr (computeCategoryRanks_own rawData modelRanks)"
  by (simp add: computeCategoryRanks_def computeCategoryRanks_own_def
      initCategoryRanks_plain [OF assms(2)] collectCategoryRanks_plain [OF assms(1)])

lemma ensureEntry_plain:
  "modelKey \<notin> set objectPrototypeNames \<Longrightarrow> ensureEntry modelKey mmp = ensureEntry_own modelKey mmp"
  by (simp add: ensureEntry_def ensureEntry_own_def getProp_plain split: option.splits)

lemma pushScore_plain:
  "modelKey \<notin> set objectPrototypeNames
     \<Longrightarrow> pushScore meth modelKey v mmp = pushScore_own meth modelKey v mmp"
  by (simp add: pushScore_def pushScore_own_def getProp_plain split: option.splits)

lemma performanceStep_plain:
  assumes "plainModels rawData" and "(meth, methodData) \<in> set rawData"
    and "(dataset, models) \<in> set methodData" and "p \<in> set models"
  shows "performanceStep meth mmp p = performanceStep_own meth mmp p"
proof -
  obtain modelKey metrics where p: "p = (modelKey, metrics)" by (cases p) auto
  show ?thesis
  proof (cases "map_of metrics ''Mean_Dice''")
    case None
    then show ?thesis by (simp add: p performanceStep_def performanceStep_own_def)
  next
    case (Some ob)
    with assms p have "modelKey \<notin> set objectPrototypeNames"
      unfolding plainModels_def by fastforce
    then show ?thesis
      by (simp add: p Some performanceStep_def performanceStep_own_def ensureEntry_plain
          pushScore_plain)
  qed
qed

lemma collectMethodPerformance_plain:
  assumes "plainModels rawData"
  shows "collectMethodPerformance rawData = collectMethodPerformance_own rawData"
  unfolding collectMethodPerformance_def collectMethodPerformance_own_def
proof (rule foldE_cong_set)
  fix acc and x :: "string \<times> methodData"
  assume x: "x \<in> set rawData"
  obtain meth methodData where xe: "x = (meth, methodData)" by (cases x) auto
  have "foldE (\<lambda>acc (dataset, models). foldE (performanceStep meth) acc models) acc methodData
      = foldE (\<lambda>acc (dataset, models). foldE (performanceStep_own meth) acc models) acc methodData"
  proof (rule foldE_cong_set)
    fix acc and y :: "string \<times> models"
    assume y: "y \<in> set methodData"
    obtain dataset models where ye: "y = (dataset, models)" by (cases y) auto
    have "foldE (performanceStep meth) acc models = foldE (performanceStep_own meth) acc models"
      by (rule foldE_cong_set) (rule performanceStep_plain [OF assms], use x xe y ye in simp_all)
    then show "(case y of (dataset, models) \<Rightarrow> foldE (performanceStep meth) acc models)
        = (case y of (dataset, models) \<Rightarrow> foldE (performanceStep_own meth) acc models)"
      by (simp add: ye)
  qed
  then show "(case x of (method, methodData) \<Rightarrow>
          foldE (\<lambda>acc (dataset, models). foldE (performanceStep method) acc models) acc methodData)
      = (case x of (method, methodData) \<Rightarrow>
          foldE (\<lambda>acc (dataset, models). foldE (performanceStep_own method) acc models) acc methodData)"
    by (simp add: xe)
qed

lemma computeMethodPerformance_plain:
  assumes "plainModels rawData"
  shows "computeMethodPerformance rawData = computeMethodPerformance_own rawData"
  by (simp add: computeMethodPerformance_def computeMethodPerformance_own_def
      collectMethodPerformance_plain [OF assms])

lemma ranksByMethodStep_plain:
  assumes "model (snd p) \<notin> set objectPrototypeNames"
  shows "ranksByMethodStep acc p = Inr (ranksByMethodStep_own acc p)"
  using assms
  by (cases p) (simp add: ranksByMethodStep_def ranksByMethodStep_own_def getProp_plain
      split: option.splits)

lemma collectDatasetRanks_plain:
  assumes "plainModels rawData"
  shows "collectDatasetRanks rawData dataset = Inr (collectDatasetRanks_own rawData dataset)"
  unfolding collectDatasetRanks_def collectDatasetRanks_own_def
proof (rule foldE_Inr_foldl)
  fix acc and x :: "string \<times> methodData"
  assume x: "x \<in> set rawData"
  obtain meth methodData where xe: "x = (meth, methodData)" by (cases x) auto
  have e: "scoresOf [] = []"
    by (simp add: scoresOf_def scoreEntries_def)
  have "foldE ranksByMethodStep acc (enumerate 0 (scoresOf models))
      = Inr (foldl ranksByMethodStep_own acc (enumerate 0 (scoresOf models)))"
    if "map_of methodData dataset = Some models" for models
  proof -
    from that have "(dataset, models) \<in> set methodData" by (rule map_of_SomeD)
    with x xe show ?thesis
      by (intro foldE_Inr_foldl ranksByMethodStep_plain plainModels_scores [OF assms]) simp_all
  qed
  then show "(case x of (method, methodData) \<Rightarrow>
          case getProp methodData dataset of
            Own models \<Rightarrow> foldE ranksByMethodStep acc (enumerate 0 (scoresOf models))
          | Inherited \<Rightarrow> foldE ranksByMethodStep acc (enumerate 0 (scoresOf []))
          | Undefined \<Rightarrow> Inr acc)
      = Inr (case x of (method, methodData) \<Rightarrow>
          case map_of methodData dataset of
            None \<Rightarrow> acc
          | Some models \<Rightarrow> foldl ranksByMethodStep_own acc (enumerate 0 (scoresOf models)))"
    by (simp add: xe e getProp_def split: option.splits)
qed

lemma collectDatasetRanks_keys:
  assumes "plainModels rawData" and "p \<in> set (collectDatasetRanks_own rawData dataset)"
  shows "fst p \<notin> set objectPrototypeNames"
proof -
  from assms(2) have "map_of (collectDatasetRanks_own rawData dataset) (fst p) \<noteq> None"
    by (simp add: map_of_eq_None_iff)
  then have "spec_datasetRanks rawData dataset (fst p) \<noteq> []"
    by (simp add: collectDatasetRanks_map_of split: if_splits)
  then have "observedIn rawData dataset (fst p)"
    by (simp only: spec_datasetRanks_observedIn)
  then obtain meth methodData models metrics where
    "(meth, methodData) \<in> set rawData" "map_of methodData dataset = Some models"
    "(fst p, metrics) \<in> set models" "map_of metrics ''Mean_Dice'' \<noteq> None"
    unfolding observedIn_def by (fastforce split: option.splits)
  moreover from this(2) have "(dataset, models) \<in> set methodData" by (rule map_of_SomeD)
  ultimately show ?thesis
    using assms(1) unfolding plainModels_def by fastforce
qed

lemma storeAverageRank_plain:
  assumes "fst p \<notin> set objectPrototypeNames"
  shows "storeAverageRank dataset acc p = Inr (storeAverageRank_own dataset acc p)"
  using assms
  by (cases p) (simp add: storeAverageRank_def storeAverageRank_own_def getProp_plain
      split: option.splits)

lemma computeModelDatasetRanks_plain:
  assumes "plainModels rawData" and "''__proto__'' \<notin> model_key ` set modelRanks"
  shows "computeModelDatasetRanks rawData modelRanks
           = Inr (computeModelDatasetRanks_own rawData modelRanks)"
proof -
  have "foldE (\<lambda>acc dataset.
                   case collectDatasetRanks rawData dataset of
                     Inl e \<Rightarrow> Inl e
                   | Inr modelRanksByMethod \<Rightarrow> foldE (storeAverageRank dataset) acc modelRanksByMethod)
            acc ds
      = Inr (foldl (\<lambda>acc dataset. foldl (storeAverageRank_own dataset) acc
                      (collectDatasetRanks_own rawData dataset)) acc ds)" for acc ds
  proof (rule foldE_Inr_foldl)
    fix acc :: "datasetEntry obj" and dataset
    have "foldE (storeAverageRank dataset) acc (collectDatasetRanks_own rawData dataset)
        = Inr (foldl (storeAverageRank_own dataset) acc (collectDatasetRanks_own rawData dataset))"
      by (intro foldE_Inr_foldl storeAverageRank_plain collectDatasetRanks_keys [OF assms(1)])
    then show "(case collectDatasetRanks rawData dataset of
                     Inl e \<Rightarrow> Inl e
                   | Inr modelRanksByMethod \<Rightarrow> foldE (storeAverageRank dataset) acc modelRanksByMethod)
        = Inr (foldl (storeAverageRank_own dataset) acc (collectDatasetRanks_own rawData dataset))"
      by (simp add: collectDatasetRanks_plain [OF assms(1)])
  qed
  then show ?thesis
    by (simp add: computeModelDatasetRanks_def computeModelDatasetRanks_own_def
        initDatasetRanks_plain [OF assms(2)])
qed

lemma computeDetailedStats_plain:
  assumes "plainModels rawData" and "''__proto__'' \<notin> model_key ` set (model_ranks stats)"
  shows "computeDetailedStats rawData stats = computeDetailedStats_own rawData stats"
  by (simp add: computeDetailedStats_def computeDetailedStats_own_def Let_def
      computeCategoryRanks_plain [OF assms] computeMethodPerformance_plain [OF assms(1)]
      computeModelDatasetRanks_plain [OF assms] split: sum.splits)

subsection \<open>The category and method averages\<close>

lemma observedUnder_spec_methodScores:
  "spec_methodScores rawData mk meth \<noteq> [] \<longleftrightarrow> observedUnder rawData meth mk"
proof -
  have "spec_methodScores rawData mk meth \<noteq> []
      \<longleftrightarrow> (\<exists>ev \<in> set (perfEvents rawData). fst ev = meth \<and> fst (snd ev) = mk)"
    unfolding eventScores_perfEvents [symmetric]
    by (auto simp: eventScores_def filter_empty_conv)
  also have "\<dots> \<longleftrightarrow> observedUnder rawData meth mk"
  proof
    assume "\<exists>ev \<in> set (perfEvents rawData). fst ev = meth \<and> fst (snd ev) = mk"
    then obtain ev where "ev \<in> set (perfEvents rawData)" "fst ev = meth" "fst (snd ev) = mk"
      by blast
    then show "observedUnder rawData meth mk"
      unfolding in_perfEvents_iff observedUnder_def by fastforce
  next
    assume "observedUnder rawData meth mk"
    then obtain methodData dataset models metrics ob where
      *: "(meth, methodData) \<in> set rawData" "(dataset, models) \<in> set methodData"
         "(mk, metrics) \<in> set models" "map_of metrics ''Mean_Dice'' = Some ob"
      unfolding observedUnder_def by fastforce
    then have "(meth, mk, mean ob) \<in> set (perfEvents rawData)"
      unfolding in_perfEvents_iff by fastforce
    then show "\<exists>ev \<in> set (perfEvents rawData). fst ev = meth \<and> fst (snd ev) = mk"
      by force
  qed
  finally show ?thesis .
qed

text \<open>
  Claim C5. When the methods of the table are configured methods, no model key with a
  \<^verbatim>\<open>Mean_Dice\<close> observation is a name of \<^verbatim>\<open>Object.prototype\<close> and the summary has no key
  \<^verbatim>\<open>__proto__\<close>, \<^verbatim>\<open>computeDetailedStats\<close> returns, and for every model with a \<^verbatim>\<open>Mean_Dice\<close>
  observation and every configured method the entry of the model holds the
  \<^verbatim>\<open>Mean_Dice.mean\<close> values recorded for the model under the method and, as
  \<^verbatim>\<open>`${method}Avg`\<close>, their arithmetic mean; the average is \<^verbatim>\<open>null\<close> exactly when the model
  has no observation under the method.
\<close>

theorem method_performance_average:
  assumes "fst ` set rawData \<subseteq> set CONFIG_methods"
    and "observed rawData mk" and "meth \<in> set CONFIG_methods"
    and plain: "plainModels rawData" "''__proto__'' \<notin> model_key ` set (model_ranks stats)"
  shows "\<exists>r e. computeDetailedStats rawData stats = Inr r
           \<and> getProp (modelMethodPerformance r) mk = Own e
           \<and> map_of (me_scores e) meth = Some (spec_methodScores rawData mk meth)
           \<and> map_of (me_avg e) meth
               = Some (if spec_methodScores rawData mk meth = [] then None
                       else Some (arithmeticMean (spec_methodScores rawData mk meth)))
           \<and> (map_of (me_avg e) meth = Some None \<longleftrightarrow> \<not> observedUnder rawData meth mk)"
proof -
  from computeDetailedStats_result [OF assms(1), of stats] obtain mmp where
    r: "computeMethodPerformance_own rawData = Inr mmp"
       "computeDetailedStats_own rawData stats
               = Inr \<lparr>modelCategoryRanks = computeCategoryRanks_own rawData (model_ranks stats),
                      modelMethodPerformance = mmp,
                      modelDatasetRanks = computeModelDatasetRanks_own rawData (model_ranks stats)\<rparr>"
    by blast
  let ?e = "averagedEntry (eventEntry (perfEvents rawData) mk)"
  from computeMethodPerformance_result [OF assms(1)] r(1) assms(2)
  have e: "map_of mmp mk = Some ?e"
    by simp
  have sc: "map_of (me_scores ?e) meth = Some (spec_methodScores rawData mk meth)"
    using averagedEntry_eventEntry [of "perfEvents rawData" mk] assms(3)
    by (simp add: eventEntry_complete eventScores_perfEvents)
  have av: "map_of (me_avg ?e) meth = Some (spec_average (spec_methodScores rawData mk meth))"
    using averagedEntry_eventEntry [of "perfEvents rawData" mk] assms(3)
    by (simp add: eventScores_perfEvents)
  have nul: "map_of (me_avg ?e) meth = Some None \<longleftrightarrow> \<not> observedUnder rawData meth mk"
    using observedUnder_spec_methodScores [of rawData mk meth, symmetric]
    by (simp add: av spec_average_def)
  from r(2) e sc av nul show ?thesis
    by (simp add: spec_average_def computeDetailedStats_plain [OF plain] getProp_Own_iff)
qed


lemma exampleRaw_methods: "fst ` set exampleRaw \<subseteq> set CONFIG_methods"
  by (simp add: exampleRaw_def CONFIG_methods_def)

lemma exampleRaw_plain: "plainModels exampleRaw"
  by (simp add: plainModels_def exampleRaw_def dice_def objectPrototypeNames_def)

lemma exampleStats_plain: "''__proto__'' \<notin> model_key ` set (model_ranks exampleStats)"
  by (simp add: exampleStats_def exampleRank_def)

theorem method_performance_average_witness:
  "(\<exists>r e. computeDetailedStats exampleRaw exampleStats = Inr r
       \<and> getProp (modelMethodPerformance r) ''m2'' = Own e
       \<and> map_of (me_scores e) ''frozen'' = Some [0.8, 0.6]
       \<and> map_of (me_avg e) ''frozen'' = Some (Some 0.7))
   \<and> (\<exists>r e. computeDetailedStats exampleRaw exampleStats = Inr r
       \<and> getProp (modelMethodPerformance r) ''m2'' = Own e
       \<and> map_of (me_scores e) ''dora'' = Some []
       \<and> map_of (me_avg e) ''dora'' = Some None)"
proof -
  have obs: "observed exampleRaw ''m2''"
    by (simp add: observed_def exampleRaw_def dice_def)
  have m1: "''frozen'' \<in> set CONFIG_methods" and m2: "''dora'' \<in> set CONFIG_methods"
    by (simp_all add: CONFIG_methods_def)
  have s1: "spec_methodScores exampleRaw ''m2'' ''frozen'' = [0.8, 0.6]"
    by (simp add: spec_methodScores_def exampleRaw_def dice_def)
  have s2: "spec_methodScores exampleRaw ''m2'' ''dora'' = []"
    by (simp add: spec_methodScores_def exampleRaw_def dice_def)
  have a1: "arithmeticMean [0.8, 0.6] = 0.7"
    by (simp add: arithmeticMean_def)
  from method_performance_average [OF exampleRaw_methods obs m1 exampleRaw_plain exampleStats_plain]
  have "\<exists>r e. computeDetailedStats exampleRaw exampleStats = Inr r
       \<and> getProp (modelMethodPerformance r) ''m2'' = Own e
       \<and> map_of (me_scores e) ''frozen'' = Some [0.8, 0.6]
       \<and> map_of (me_avg e) ''frozen'' = Some (Some 0.7)"
    unfolding s1 using a1 by auto
  moreover from method_performance_average [OF exampleRaw_methods obs m2 exampleRaw_plain exampleStats_plain]
  have "\<exists>r e. computeDetailedStats exampleRaw exampleStats = Inr r
       \<and> getProp (modelMethodPerformance r) ''m2'' = Own e
       \<and> map_of (me_scores e) ''dora'' = Some []
       \<and> map_of (me_avg e) ''dora'' = Some None"
    unfolding s2 by auto
  ultimately show ?thesis by blast
qed









subsection \<open>Degraded input\<close>

text \<open>
  Without the hypothesis on the model keys the functions of the source need not agree with
  the loops read on own properties, nor return at all.

  Claim C7. \<^verbatim>\<open>computeDetailedStats\<close> and \<^verbatim>\<open>computeModelDatasetRanks\<close> are to return a result
  for every raw table and every mismatch between the models of the table and the models of
  the summary. They do not: for the table
  \<^verbatim>\<open>{frozen: {GlaS: {constructor: {Mean_Dice: {mean: 0.5, ...}}}}}\<close> and a summary without
  models, the model \<^verbatim>\<open>constructor\<close> is in the table only, the guards
  \<^verbatim>\<open>if (modelCategoryRanks[item.model])\<close> and \<^verbatim>\<open>if (!modelRanksByMethod[item.model])\<close> find
  the member \<^verbatim>\<open>constructor\<close> of \<^verbatim>\<open>Object.prototype\<close>, and the call of \<^verbatim>\<open>push\<close> that follows
  throws a \<^verbatim>\<open>TypeError\<close> in both functions.
\<close>

theorem aggregation_throws_on_inherited_key:
  "computeDetailedStats constructorRaw emptyStats = Inl TypeError
   \<and> computeModelDatasetRanks constructorRaw (model_ranks emptyStats) = Inl TypeError"
proof -
  have s: "scoresOf [(''constructor'', dice x)] = [\<lparr>model = ''constructor'', score = x\<rparr>]" for x
    by (simp add: scoresOf_def scoreEntries_def hasMeanDice_def toScoreItem_def dice_def)
  have g: "getProp ([] :: categoryEntry obj) ''constructor'' = Inherited"
    "getProp ([] :: nat list obj) ''constructor'' = Inherited"
    by (simp_all add: getProp_def objectPrototypeNames_def)
  have c: "getDatasetCategory ''GlaS'' = Category Gland"
    by (simp add: getDatasetCategory_def CONFIG_datasetCategories_def)
  have "computeCategoryRanks constructorRaw (model_ranks emptyStats) = Inl TypeError"
    by (simp add: computeCategoryRanks_def initCategoryRanks_def collectCategoryRanks_def
        datasetStep_def rankStep_def constructorRaw_def emptyStats_def s g c)
  then have 1: "computeDetailedStats constructorRaw emptyStats = Inl TypeError"
    by (simp add: computeDetailedStats_def)
  have d: "allDatasetsOf constructorRaw = [''GlaS'']"
    by (simp add: allDatasetsOf_def constructorRaw_def setAdd_def)
  have h: "getProp [(''GlaS'', m)] ''GlaS'' = Own m" for m :: models
    by (simp add: getProp_def)
  have "collectDatasetRanks constructorRaw ''GlaS'' = Inl TypeError"
    by (simp add: collectDatasetRanks_def constructorRaw_def ranksByMethodStep_def s g h)
  then have 2: "computeModelDatasetRanks constructorRaw (model_ranks emptyStats) = Inl TypeError"
    by (simp add: computeModelDatasetRanks_def initDatasetRanks_def emptyStats_def d)
  from 1 2 show ?thesis by simp
qed

subsection \<open>Best-Result Selector\<close>





lemma spec_metricData_hasObservation:
  "spec_metricData rawData dataset metricKey \<noteq> [] \<longleftrightarrow> hasObservation rawData dataset metricKey"
proof -
  have inner: "concat (map (\<lambda>(modelKey, modelMetrics).
             case map_of modelMetrics metricKey of
               None \<Rightarrow> []
             | Some ob \<Rightarrow> [toMetricDatum meth modelKey ob]) models) \<noteq> []
      \<longleftrightarrow> (\<exists>(modelKey, modelMetrics) \<in> set models. map_of modelMetrics metricKey \<noteq> None)"
    for meth models
    by (induction models) (auto split: option.splits)
  show ?thesis
  proof (induction rawData)
    case Nil
    show ?case by (simp add: spec_metricData_def hasObservation_def)
  next
    case (Cons q rawData)
    obtain meth methodData where q: "q = (meth, methodData)" by (cases q) auto
    have "spec_metricData (q # rawData) dataset metricKey \<noteq> []
        \<longleftrightarrow> (case map_of methodData dataset of
               None \<Rightarrow> False
             | Some models \<Rightarrow> (\<exists>(modelKey, modelMetrics) \<in> set models.
                                 map_of modelMetrics metricKey \<noteq> None))
            \<or> spec_metricData rawData dataset metricKey \<noteq> []"
      using inner [of meth]
      by (cases "map_of methodData dataset") (simp_all add: spec_metricData_def q)
    also have "\<dots> \<longleftrightarrow> hasObservation (q # rawData) dataset metricKey"
      unfolding Cons.IH by (simp add: hasObservation_def q)
    finally show ?case .
  qed
qed





lemma spec_metricData_observations:
  "spec_metricData rawData dataset metricKey
     = map (\<lambda>(meth, modelKey, ob). toMetricDatum meth modelKey ob)
         (spec_observations rawData dataset metricKey)"
proof -
  have inner: "concat (map (\<lambda>(modelKey, modelMetrics).
             case map_of modelMetrics metricKey of
               None \<Rightarrow> []
             | Some ob \<Rightarrow> [toMetricDatum meth modelKey ob]) models)
      = map (\<lambda>(meth, modelKey, ob). toMetricDatum meth modelKey ob)
          (concat (map (\<lambda>(modelKey, modelMetrics).
             case map_of modelMetrics metricKey of
               None \<Rightarrow> []
             | Some ob \<Rightarrow> [(meth, modelKey, ob)]) models))" for meth models
    by (induction models) (auto split: option.splits)
  show ?thesis
  proof (induction rawData)
    case Nil
    show ?case by (simp add: spec_metricData_def spec_observations_def)
  next
    case (Cons q rawData)
    obtain meth methodData where q: "q = (meth, methodData)" by (cases q) auto
    from Cons.IH show ?case
      by (cases "map_of methodData dataset")
        (simp_all add: spec_metricData_def spec_observations_def q inner)
  qed
qed


lemma hasObservation_spec_observations:
  "spec_observations rawData dataset metricKey \<noteq> [] \<longleftrightarrow> hasObservation rawData dataset metricKey"
  using spec_metricData_hasObservation [of rawData dataset metricKey]
  by (simp add: spec_metricData_observations)




subsection \<open>The store: what the functions write to\<close>

lemma framed_refl: "framed h h"
  by (auto simp: framed_def)

lemma own_prim [simp]:
  "own n VUndefined" "own n VNull" "own n (VNum x)" "own n (VStr s)" "own n VBuiltin"
  by (simp_all add: own_def)

lemma framed_snoc:
  assumes "framed h0 h" and "closedObj (length h0) ob"
  shows "framed h0 (h @ [ob])"
  using assms unfolding framed_def by (auto simp: nth_append)

lemma own_fresh:
  assumes "framed h0 h"
  shows "own (length h0) (VRef (length h))"
  using assms unfolding framed_def own_def by simp

lemma closedObj_empty [simp]: "closedObj n (HArr [])" "closedObj n (HObj [])"
  by (simp_all add: closedObj_def)

lemma ownEntries_SomeD:
  "ownEntries v h = Some ps
     \<Longrightarrow> (\<exists>a. v = VRef a \<and> a < length h \<and> h ! a = HObj ps) \<or> (v = VBuiltin \<and> ps = [])"
  by (auto simp: ownEntries_def split: val.splits if_splits hobj.splits)

lemma arrayElements_SomeD:
  "arrayElements v h = Some xs \<Longrightarrow> \<exists>a. v = VRef a \<and> a < length h \<and> h ! a = HArr xs"
  by (auto simp: arrayElements_def split: val.splits if_splits hobj.splits)

lemma own_ownEntries:
  assumes "framed h0 h" and "own (length h0) v" and "ownEntries v h = Some ps"
  shows "\<forall>w \<in> snd ` set ps. own (length h0) w"
proof -
  from ownEntries_SomeD [OF assms(3)] show ?thesis
  proof
    assume "\<exists>a. v = VRef a \<and> a < length h \<and> h ! a = HObj ps"
    then obtain a where a: "v = VRef a" "a < length h" "h ! a = HObj ps" by blast
    with assms(2) have "length h0 \<le> a" by (simp add: own_def)
    with assms(1) a have "closedObj (length h0) (HObj ps)" by (auto simp: framed_def)
    then show ?thesis by (simp add: closedObj_def)
  next
    assume "v = VBuiltin \<and> ps = []"
    then show ?thesis by simp
  qed
qed

lemma own_readProp:
  assumes "framed h0 h" and "own (length h0) v" and "readProp v k h = Some w"
  shows "own (length h0) w"
proof (cases v)
  case (VRef a)
  with assms(3) obtain ps where a: "a < length h" "h ! a = HObj ps"
    and w: "w = (case map_of ps k of Some w \<Rightarrow> w
                 | None \<Rightarrow> if k \<in> set objectPrototypeNames then VBuiltin else VUndefined)"
    by (auto simp: readProp_def split: if_splits hobj.splits)
  from assms(2) VRef have "length h0 \<le> a" by (simp add: own_def)
  with assms(1) a have c: "closedObj (length h0) (HObj ps)" by (auto simp: framed_def)
  show ?thesis
  proof (cases "map_of ps k")
    case None
    then show ?thesis by (simp add: w)
  next
    case (Some x)
    then have "x \<in> snd ` set ps" by (force dest: map_of_SomeD)
    with c Some show ?thesis by (auto simp: w closedObj_def)
  qed
next
  case VBuiltin
  with assms(3) show ?thesis by (simp add: readProp_def)
qed (use assms(3) in \<open>simp_all add: readProp_def\<close>)

lemma framed_update:
  assumes "framed h0 h" and "length h0 \<le> a" and "closedObj (length h0) ob"
  shows "framed h0 (h[a := ob])"
proof (cases "a < length h")
  case True
  with assms show ?thesis
    unfolding framed_def by (auto simp: nth_list_update)
next
  case False
  then have "length h \<le> a" by simp
  then have "h[a := ob] = h" by (rule list_update_beyond)
  with assms(1) show ?thesis by simp
qed

lemma framed_writeProp:
  assumes "framed h0 h" and "own (length h0) v" and "own (length h0) w"
    and "writeProp v k w h = Some h'"
  shows "framed h0 h'"
proof (cases v)
  case (VRef a)
  with assms(4) obtain ps where a: "a < length h" "h ! a = HObj ps"
    and h': "h' = h \<or> h' = h[a := HObj (AList.update k w ps)]"
    by (auto simp: writeProp_def split: if_splits hobj.splits val.splits)
  from assms(2) VRef have n: "length h0 \<le> a" by (simp add: own_def)
  with assms(1) a have c: "closedObj (length h0) (HObj ps)" by (auto simp: framed_def)
  have "\<forall>x \<in> snd ` set (AList.update k w ps). own (length h0) x"
  proof
    fix x assume "x \<in> snd ` set (AList.update k w ps)"
    then have "x = w \<or> x \<in> snd ` set ps"
      by (induction ps) (auto split: if_splits)
    with c assms(3) show "own (length h0) x" by (auto simp: closedObj_def)
  qed
  then have "closedObj (length h0) (HObj (AList.update k w ps))"
    by (simp add: closedObj_def)
  from framed_update [OF assms(1) n this] h' assms(1) show ?thesis
    by auto
qed (use assms(4) in \<open>simp_all add: writeProp_def\<close>)

lemma framed_arrayPush:
  assumes "framed h0 h" and "own (length h0) v" and "own (length h0) w"
    and "arrayPush v w h = Some h'"
  shows "framed h0 h'"
proof (cases v)
  case (VRef a)
  with assms(4) obtain xs where a: "a < length h" "h ! a = HArr xs"
    and h': "h' = h[a := HArr (xs @ [w])]"
    by (auto simp: arrayPush_def split: if_splits hobj.splits)
  from assms(2) VRef have n: "length h0 \<le> a" by (simp add: own_def)
  with assms(1) a have "closedObj (length h0) (HArr xs)" by (auto simp: framed_def)
  with assms(3) have "closedObj (length h0) (HArr (xs @ [w]))"
    by (simp add: closedObj_def)
  from framed_update [OF assms(1) n this] show ?thesis
    by (simp add: h')
qed (use assms(4) in \<open>simp_all add: arrayPush_def\<close>)

lemma framed_forEach:
  assumes "\<And>x h h'. x \<in> set xs \<Longrightarrow> framed h0 h \<Longrightarrow> f x h = Some h' \<Longrightarrow> framed h0 h'"
    and "framed h0 h" and "forEach f xs h = Some h'"
  shows "framed h0 h'"
  using assms
proof (induction xs arbitrary: h)
  case Nil
  then show ?case by simp
next
  case (Cons x xs)
  from Cons.prems(3) obtain h1 where h1: "f x h = Some h1" "forEach f xs h1 = Some h'"
    by (auto split: option.splits)
  have 1: "framed h0 h1"
    using Cons.prems(1) [of x h h1] Cons.prems(2) h1(1) by simp
  show ?case
  proof (rule Cons.IH [OF _ 1 h1(2)])
    fix y ha hb
    assume "y \<in> set xs" "framed h0 ha" "f y ha = Some hb"
    then show "framed h0 hb"
      using Cons.prems(1) [of y ha hb] by simp
  qed
qed

subsection \<open>The functions write to their own objects only\<close>

lemma framed_initCategoryEntry:
  assumes "framed h0 h" and "own (length h0) t" and "h_initCategoryEntry t m h = Some h'"
  shows "framed h0 h'"
proof -
  let ?n = "length h0"
  from assms(3) obtain key display avg where
    w: "writeProp t key (VRef (Suc (Suc (Suc (length h)))))
          (h @ [HArr [], HArr [], HArr [],
                HObj [(''model'', VStr display), (''overall'', VNum avg),
                      (''Nuclear'', VRef (length h)), (''Gland'', VRef (Suc (length h))),
                      (''Tissue'', VRef (Suc (Suc (length h))))]]) = Some h'"
    by (auto simp: h_initCategoryEntry_def bind_eq_Some_conv alloc_def)
  from assms(1) have le: "?n \<le> length h" by (simp add: framed_def)
  have 1: "framed h0 (h @ [HArr []])"
    by (rule framed_snoc [OF assms(1)]) simp
  have 2: "framed h0 ((h @ [HArr []]) @ [HArr []])"
    by (rule framed_snoc [OF 1]) simp
  have 3: "framed h0 (((h @ [HArr []]) @ [HArr []]) @ [HArr []])"
    by (rule framed_snoc [OF 2]) simp
  have 4: "framed h0 ((((h @ [HArr []]) @ [HArr []]) @ [HArr []])
                @ [HObj [(''model'', VStr display), (''overall'', VNum avg),
                      (''Nuclear'', VRef (length h)), (''Gland'', VRef (Suc (length h))),
                      (''Tissue'', VRef (Suc (Suc (length h))))]])"
    by (rule framed_snoc [OF 3]) (use le in \<open>simp add: closedObj_def own_def\<close>)
  have o: "own ?n (VRef (Suc (Suc (Suc (length h)))))"
    using le by (simp add: own_def)
  from framed_writeProp [OF _ assms(2) o w] 4 show ?thesis
    by simp
qed

lemma framed_rankStep:
  assumes "framed h0 h" and "own (length h0) t" and "h_rankStep t c p h = Some h'"
  shows "framed h0 h'"
proof -
  obtain idx item where p: "p = (idx, item)" by (cases p) auto
  from assms(3) obtain entry where e: "readProp t (model item) h = Some entry"
    by (auto simp: h_rankStep_def p bind_eq_Some_conv)
  show ?thesis
  proof (cases "truthy entry")
    case False
    with assms(1,3) e show ?thesis
      by (simp add: h_rankStep_def p)
  next
    case True
    with assms(3) e obtain ranks where r: "readProp entry (categoryName c) h = Some ranks"
      and pu: "arrayPush ranks (VNum (real (idx + 1))) h = Some h'"
      by (auto simp: h_rankStep_def p bind_eq_Some_conv)
    from own_readProp [OF assms(1,2) e] have "own (length h0) entry" .
    from own_readProp [OF assms(1) this r] have "own (length h0) ranks" .
    from framed_arrayPush [OF assms(1) this _ pu] show ?thesis by simp
  qed
qed

lemma framed_datasetStep:
  assumes "framed h0 h" and "own (length h0) t" and "h_datasetStep t q h = Some h'"
  shows "framed h0 h'"
proof -
  obtain dataset models where q: "q = (dataset, models)" by (cases q) auto
  show ?thesis
  proof (cases "getDatasetCategory dataset")
    case Other
    with assms(1,3) show ?thesis by (simp add: h_datasetStep_def q)
  next
    case (Category c)
    with assms(3) obtain scores where
      f: "forEach (h_rankStep t c) (enumerate 0 scores) h = Some h'"
      by (auto simp: h_datasetStep_def q bind_eq_Some_conv)
    show ?thesis
      by (rule framed_forEach [OF _ assms(1) f]) (rule framed_rankStep [OF _ assms(2)])
  qed
qed

lemma framed_collectCategoryRanks:
  assumes "framed h0 h" and "own (length h0) t" and "h_collectCategoryRanks t rawData h = Some h'"
  shows "framed h0 h'"
proof -
  from assms(3) obtain methods :: "(string \<times> val) list" where
    f: "forEach (\<lambda>(meth, methodData) h. do {
                datasets \<leftarrow> ownEntries methodData h;
                forEach (h_datasetStep t) datasets h }) methods h = Some h'"
    by (auto simp: h_collectCategoryRanks_def bind_eq_Some_conv)
  show ?thesis
  proof (rule framed_forEach [OF _ assms(1) f])
    fix x :: "string \<times> val" and h1 h2
    assume h1: "framed h0 h1"
      and "(case x of (meth, methodData) \<Rightarrow> \<lambda>h. do {
                datasets \<leftarrow> ownEntries methodData h;
                forEach (h_datasetStep t) datasets h }) h1 = Some h2"
    then obtain datasets where g: "forEach (h_datasetStep t) datasets h1 = Some h2"
      by (auto simp: bind_eq_Some_conv split: prod.splits)
    show "framed h0 h2"
      by (rule framed_forEach [OF _ h1 g]) (rule framed_datasetStep [OF _ assms(2)])
  qed
qed

lemma framed_averageCategory:
  assumes "framed h0 h" and "own (length h0) e" and "h_averageCategory e c h = Some h'"
  shows "framed h0 h'"
proof -
  from assms(3) obtain x where
    "writeProp e (categoryName c @ ''Avg'') (VNum x) h = Some h'"
    by (auto simp: h_averageCategory_def bind_eq_Some_conv)
  from framed_writeProp [OF assms(1,2) _ this] show ?thesis by simp
qed

lemma framed_averageCategories:
  assumes "framed h0 h" and "own (length h0) t" and "h_averageCategories t h = Some h'"
  shows "framed h0 h'"
proof -
  from assms(3) obtain es where es: "ownEntries t h = Some es"
    and f: "forEach (\<lambda>modelData. forEach (h_averageCategory modelData) [Nuclear, Gland, Tissue])
              (map snd es) h = Some h'"
    by (auto simp: h_averageCategories_def bind_eq_Some_conv)
  from own_ownEntries [OF assms(1,2) es] have o: "\<forall>w \<in> set (map snd es). own (length h0) w"
    by simp
  show ?thesis
  proof (rule framed_forEach [OF _ assms(1) f])
    fix e h1 h2
    assume e: "e \<in> set (map snd es)" and h1: "framed h0 h1"
      and g: "forEach (h_averageCategory e) [Nuclear, Gland, Tissue] h1 = Some h2"
    from o e have oe: "own (length h0) e" by blast
    show "framed h0 h2"
      by (rule framed_forEach [OF _ h1 g]) (rule framed_averageCategory [OF _ oe])
  qed
qed

lemma framed_newMethodEntry:
  assumes "framed h0 h" and "own (length h0) t" and "h_newMethodEntry t k h = Some h'"
  shows "framed h0 h'"
proof -
  from assms(3) obtain h1 where
    w: "writeProp t k (VRef (length h)) (h @ [HObj []]) = Some h1"
    and f: "forEach (\<lambda>m h. do {
                e \<leftarrow> readProp t k h;
                let (arr, h) = alloc (HArr []) h;
                writeProp e m arr h }) CONFIG_methods h1 = Some h'"
    by (auto simp: h_newMethodEntry_def bind_eq_Some_conv alloc_def)
  have 1: "framed h0 (h @ [HObj []])" and o: "own (length h0) (VRef (length h))"
    by (rule framed_snoc [OF assms(1)], simp) (rule own_fresh [OF assms(1)])
  from framed_writeProp [OF 1 assms(2) o w] have h1: "framed h0 h1" .
  show ?thesis
  proof (rule framed_forEach [OF _ h1 f])
    fix m :: string and h2 h3
    assume h2: "framed h0 h2"
      and "do { e \<leftarrow> readProp t k h2;
                let (arr, h) = alloc (HArr []) h2;
                writeProp e m arr h } = Some h3"
    then obtain e where e: "readProp t k h2 = Some e"
      and w2: "writeProp e m (VRef (length h2)) (h2 @ [HArr []]) = Some h3"
      by (auto simp: bind_eq_Some_conv alloc_def)
    have 2: "framed h0 (h2 @ [HArr []])" and o2: "own (length h0) (VRef (length h2))"
      by (rule framed_snoc [OF h2], simp) (rule own_fresh [OF h2])
    from own_readProp [OF h2 assms(2) e] have "own (length h0) e" .
    from framed_writeProp [OF 2 this o2 w2] show "framed h0 h3" .
  qed
qed

lemma framed_performanceStep:
  assumes "framed h0 h" and "own (length h0) t" and "h_performanceStep t meth p h = Some h'"
  shows "framed h0 h'"
proof -
  obtain modelKey metrics where p: "p = (modelKey, metrics)" by (cases p) auto
  from assms(3) obtain d where d: "readProp metrics ''Mean_Dice'' h = Some d"
    by (auto simp: h_performanceStep_def p bind_eq_Some_conv)
  show ?thesis
  proof (cases "truthy d")
    case False
    with assms(1,3) d show ?thesis by (simp add: h_performanceStep_def p)
  next
    case True
    with assms(3) d obtain e0 h1 e arr x where
      e0: "readProp t modelKey h = Some e0"
      and h1: "(if \<not> truthy e0 then h_newMethodEntry t modelKey h else Some h) = Some h1"
      and e: "readProp t modelKey h1 = Some e"
      and arr: "readProp e meth h1 = Some arr"
      and pu: "arrayPush arr (VNum x) h1 = Some h'"
      by (auto simp: h_performanceStep_def p bind_eq_Some_conv)
    from h1 assms(1,2) have f1: "framed h0 h1"
      by (auto split: if_splits intro: framed_newMethodEntry)
    from own_readProp [OF f1 assms(2) e] have "own (length h0) e" .
    from own_readProp [OF f1 this arr] have "own (length h0) arr" .
    from framed_arrayPush [OF f1 this _ pu] show ?thesis by simp
  qed
qed

lemma framed_collectMethodPerformance:
  assumes "framed h0 h" and "own (length h0) t"
    and "h_collectMethodPerformance t rawData h = Some h'"
  shows "framed h0 h'"
proof -
  from assms(3) obtain methods :: "(string \<times> val) list" where
    f: "forEach (\<lambda>(meth, methodData) h. do {
                datasets \<leftarrow> ownEntries methodData h;
                forEach (\<lambda>(dataset, models) h. do {
                           ms \<leftarrow> ownEntries models h;
                           forEach (h_performanceStep t meth) ms h })
                  datasets h }) methods h = Some h'"
    by (auto simp: h_collectMethodPerformance_def bind_eq_Some_conv)
  show ?thesis
  proof (rule framed_forEach [OF _ assms(1) f])
    fix x :: "string \<times> val" and h1 h2
    assume h1: "framed h0 h1"
      and "(case x of (meth, methodData) \<Rightarrow> \<lambda>h. do {
                datasets \<leftarrow> ownEntries methodData h;
                forEach (\<lambda>(dataset, models) h. do {
                           ms \<leftarrow> ownEntries models h;
                           forEach (h_performanceStep t meth) ms h })
                  datasets h }) h1 = Some h2"
    then obtain meth and datasets :: "(string \<times> val) list" where
      g: "forEach (\<lambda>(dataset, models) h. do {
                           ms \<leftarrow> ownEntries models h;
                           forEach (h_performanceStep t meth) ms h }) datasets h1 = Some h2"
      by (auto simp: bind_eq_Some_conv split: prod.splits)
    show "framed h0 h2"
    proof (rule framed_forEach [OF _ h1 g])
      fix y :: "string \<times> val" and h3 h4
      assume h3: "framed h0 h3"
        and "(case y of (dataset, models) \<Rightarrow> \<lambda>h. do {
                           ms \<leftarrow> ownEntries models h;
                           forEach (h_performanceStep t meth) ms h }) h3 = Some h4"
      then obtain ms where k: "forEach (h_performanceStep t meth) ms h3 = Some h4"
        by (auto simp: bind_eq_Some_conv split: prod.splits)
      show "framed h0 h4"
        by (rule framed_forEach [OF _ h3 k]) (rule framed_performanceStep [OF _ assms(2)])
    qed
  qed
qed

lemma framed_averageMethod:
  assumes "framed h0 h" and "own (length h0) e" and "h_averageMethod e m h = Some h'"
  shows "framed h0 h'"
proof -
  from assms(3) obtain scores where
    w: "writeProp e (m @ ''Avg'')
          (if length scores > 0 then VNum (reduceSum scores / real (length scores)) else VNull) h
        = Some h'"
    by (auto simp: h_averageMethod_def bind_eq_Some_conv simp del: length_greater_0_conv)
  have "own (length h0)
          (if length scores > 0 then VNum (reduceSum scores / real (length scores)) else VNull)"
    by simp
  from framed_writeProp [OF assms(1,2) this w] show ?thesis .
qed

lemma framed_averageMethods:
  assumes "framed h0 h" and "own (length h0) t" and "h_averageMethods t h = Some h'"
  shows "framed h0 h'"
proof -
  from assms(3) obtain es where es: "ownEntries t h = Some es"
    and f: "forEach (\<lambda>modelData. forEach (h_averageMethod modelData) CONFIG_methods)
              (map snd es) h = Some h'"
    by (auto simp: h_averageMethods_def bind_eq_Some_conv)
  from own_ownEntries [OF assms(1,2) es] have o: "\<forall>w \<in> set (map snd es). own (length h0) w"
    by simp
  show ?thesis
  proof (rule framed_forEach [OF _ assms(1) f])
    fix e h1 h2
    assume e: "e \<in> set (map snd es)" and h1: "framed h0 h1"
      and g: "forEach (h_averageMethod e) CONFIG_methods h1 = Some h2"
    from o e have oe: "own (length h0) e" by blast
    show "framed h0 h2"
      by (rule framed_forEach [OF _ h1 g]) (rule framed_averageMethod [OF _ oe])
  qed
qed

lemma framed_initDatasetEntry:
  assumes "framed h0 h" and "own (length h0) t" and "h_initDatasetEntry t m h = Some h'"
  shows "framed h0 h'"
proof -
  let ?n = "length h0"
  from assms(3) obtain key display where
    w: "writeProp t key (VRef (Suc (length h)))
          (h @ [HObj [], HObj [(''model_display'', VStr display), (''datasets'', VRef (length h))]])
        = Some h'"
    by (auto simp: h_initDatasetEntry_def bind_eq_Some_conv alloc_def)
  from assms(1) have le: "?n \<le> length h" by (simp add: framed_def)
  have 1: "framed h0 (h @ [HObj []])"
    by (rule framed_snoc [OF assms(1)]) simp
  have 2: "framed h0 ((h @ [HObj []])
             @ [HObj [(''model_display'', VStr display), (''datasets'', VRef (length h))]])"
    by (rule framed_snoc [OF 1]) (use le in \<open>simp add: closedObj_def own_def\<close>)
  have o: "own ?n (VRef (Suc (length h)))"
    using le by (simp add: own_def)
  from framed_writeProp [OF _ assms(2) o w] 2 show ?thesis
    by simp
qed

lemma framed_ranksByMethodStep:
  assumes "framed h0 h" and "own (length h0) t" and "h_ranksByMethodStep t p h = Some h'"
  shows "framed h0 h'"
proof -
  obtain idx item where p: "p = (idx, item)" by (cases p) auto
  from assms(3) obtain r h1 ranks where
    r: "readProp t (model item) h = Some r"
    and h1: "(if \<not> truthy r
           then do { let (arr, h) = alloc (HArr []) h;
                     writeProp t (model item) arr h }
           else Some h) = Some h1"
    and ranks: "readProp t (model item) h1 = Some ranks"
    and pu: "arrayPush ranks (VNum (real (idx + 1))) h1 = Some h'"
    by (auto simp: h_ranksByMethodStep_def p bind_eq_Some_conv)
  have f1: "framed h0 h1"
  proof (cases "truthy r")
    case True
    with h1 assms(1) show ?thesis by simp
  next
    case False
    with h1 have w: "writeProp t (model item) (VRef (length h)) (h @ [HArr []]) = Some h1"
      by (simp add: alloc_def)
    have 1: "framed h0 (h @ [HArr []])" and o: "own (length h0) (VRef (length h))"
      by (rule framed_snoc [OF assms(1)], simp) (rule own_fresh [OF assms(1)])
    from framed_writeProp [OF 1 assms(2) o w] show ?thesis .
  qed
  from own_readProp [OF f1 assms(2) ranks] have "own (length h0) ranks" .
  from framed_arrayPush [OF f1 this _ pu] show ?thesis by simp
qed

lemma framed_collectDatasetRanks:
  assumes "framed h0 h" and "own (length h0) t"
    and "h_collectDatasetRanks t rawData dataset h = Some h'"
  shows "framed h0 h'"
proof -
  from assms(3) obtain methods :: "(string \<times> val) list" where
    f: "forEach (\<lambda>(meth, methodData) h. do {
                models \<leftarrow> readProp methodData dataset h;
                if \<not> truthy models then Some h
                else do {
                  models \<leftarrow> readProp methodData dataset h;
                  scores \<leftarrow> h_scoresOf models h;
                  forEach (h_ranksByMethodStep t) (enumerate 0 scores) h } })
       methods h = Some h'"
    by (auto simp: h_collectDatasetRanks_def bind_eq_Some_conv)
  show ?thesis
  proof (rule framed_forEach [OF _ assms(1) f])
    fix x :: "string \<times> val" and h1 h2
    assume h1: "framed h0 h1"
      and "(case x of (meth, methodData) \<Rightarrow> \<lambda>h. do {
                models \<leftarrow> readProp methodData dataset h;
                if \<not> truthy models then Some h
                else do {
                  models \<leftarrow> readProp methodData dataset h;
                  scores \<leftarrow> h_scoresOf models h;
                  forEach (h_ranksByMethodStep t) (enumerate 0 scores) h } }) h1 = Some h2"
    then have "h2 = h1 \<or> (\<exists>scores. forEach (h_ranksByMethodStep t) (enumerate 0 scores) h1 = Some h2)"
      by (auto simp: bind_eq_Some_conv split: prod.splits if_splits)
    then show "framed h0 h2"
    proof
      assume "h2 = h1"
      with h1 show ?thesis by simp
    next
      assume "\<exists>scores. forEach (h_ranksByMethodStep t) (enumerate 0 scores) h1 = Some h2"
      then obtain scores where g: "forEach (h_ranksByMethodStep t) (enumerate 0 scores) h1 = Some h2"
        by blast
      show ?thesis
        by (rule framed_forEach [OF _ h1 g]) (rule framed_ranksByMethodStep [OF _ assms(2)])
    qed
  qed
qed

lemma framed_storeAverageRank:
  assumes "framed h0 h" and "own (length h0) t" and "h_storeAverageRank t dataset p h = Some h'"
  shows "framed h0 h'"
proof -
  obtain modelKey arr where p: "p = (modelKey, arr)" by (cases p) auto
  from assms(3) obtain entry where e: "readProp t modelKey h = Some entry"
    by (auto simp: h_storeAverageRank_def p bind_eq_Some_conv)
  show ?thesis
  proof (cases "truthy entry")
    case False
    with assms(1,3) e show ?thesis by (simp add: h_storeAverageRank_def p)
  next
    case True
    with assms(3) e obtain datasets x where
      d: "readProp entry ''datasets'' h = Some datasets"
      and w: "writeProp datasets dataset (VNum x) h = Some h'"
      by (auto simp: h_storeAverageRank_def p bind_eq_Some_conv)
    from own_readProp [OF assms(1,2) e] have "own (length h0) entry" .
    from own_readProp [OF assms(1) this d] have "own (length h0) datasets" .
    from framed_writeProp [OF assms(1) this _ w] show ?thesis by simp
  qed
qed

lemma framed_datasetRanks:
  assumes "framed h0 h" and "own (length h0) t" and "h_datasetRanks t rawData dataset h = Some h'"
  shows "framed h0 h'"
proof -
  from assms(3) obtain h1 es where
    c: "h_collectDatasetRanks (VRef (length h)) rawData dataset (h @ [HObj []]) = Some h1"
    and f: "forEach (h_storeAverageRank t dataset) es h1 = Some h'"
    by (auto simp: h_datasetRanks_def bind_eq_Some_conv alloc_def)
  have 1: "framed h0 (h @ [HObj []])" and o: "own (length h0) (VRef (length h))"
    by (rule framed_snoc [OF assms(1)], simp) (rule own_fresh [OF assms(1)])
  from framed_collectDatasetRanks [OF 1 o c] have h1: "framed h0 h1" .
  show ?thesis
    by (rule framed_forEach [OF _ h1 f]) (rule framed_storeAverageRank [OF _ assms(2)])
qed

lemma framed_computeModelDatasetRanks:
  assumes "framed h0 h" and "h_computeModelDatasetRanks rawData modelRanks h = Some (result, h')"
  shows "framed h0 h' \<and> own (length h0) result"
proof -
  from assms(2) obtain ms h1 allDatasets where
    r: "result = VRef (length h)"
    and i: "forEach (h_initDatasetEntry (VRef (length h))) ms (h @ [HObj []]) = Some h1"
    and f: "forEach (h_datasetRanks (VRef (length h)) rawData) allDatasets h1 = Some h'"
    by (auto simp: h_computeModelDatasetRanks_def bind_eq_Some_conv alloc_def)
  have 1: "framed h0 (h @ [HObj []])" and o: "own (length h0) (VRef (length h))"
    by (rule framed_snoc [OF assms(1)], simp) (rule own_fresh [OF assms(1)])
  have h1: "framed h0 h1"
    by (rule framed_forEach [OF _ 1 i]) (rule framed_initDatasetEntry [OF _ o])
  have "framed h0 h'"
    by (rule framed_forEach [OF _ h1 f]) (rule framed_datasetRanks [OF _ o])
  with o r show ?thesis by simp
qed

lemma framed_computeDetailedStats:
  assumes "framed h0 h" and "h_computeDetailedStats rawData stats h = Some (result, h')"
  shows "framed h0 h'"
proof -
  let ?mcr = "VRef (length h)"
  from assms(2) obtain ms h1 h2 h3 h4 h5 modelRanks mdr h6 where
    i: "forEach (h_initCategoryEntry ?mcr) ms (h @ [HObj []]) = Some h1"
    and c: "h_collectCategoryRanks ?mcr rawData h1 = Some h2"
    and a: "h_averageCategories ?mcr h2 = Some h3"
    and p: "h_collectMethodPerformance (VRef (length h3)) rawData (h3 @ [HObj []]) = Some h4"
    and m: "h_averageMethods (VRef (length h3)) h4 = Some h5"
    and d: "h_computeModelDatasetRanks rawData modelRanks h5 = Some (mdr, h6)"
    and h': "h' = h6 @ [HObj [(''modelCategoryRanks'', ?mcr),
                             (''modelMethodPerformance'', VRef (length h3)),
                             (''modelDatasetRanks'', mdr)]]"
    by (auto simp: h_computeDetailedStats_def bind_eq_Some_conv alloc_def split: prod.splits)
  have 1: "framed h0 (h @ [HObj []])" and o: "own (length h0) ?mcr"
    by (rule framed_snoc [OF assms(1)], simp) (rule own_fresh [OF assms(1)])
  have f1: "framed h0 h1"
    by (rule framed_forEach [OF _ 1 i]) (rule framed_initCategoryEntry [OF _ o])
  from framed_collectCategoryRanks [OF f1 o c] have f2: "framed h0 h2" .
  from framed_averageCategories [OF f2 o a] have f3: "framed h0 h3" .
  have 3: "framed h0 (h3 @ [HObj []])" and o3: "own (length h0) (VRef (length h3))"
    by (rule framed_snoc [OF f3], simp) (rule own_fresh [OF f3])
  from framed_collectMethodPerformance [OF 3 o3 p] have f4: "framed h0 h4" .
  from framed_averageMethods [OF f4 o3 m] have f5: "framed h0 h5" .
  from framed_computeModelDatasetRanks [OF f5 d] have f6: "framed h0 h6" and om: "own (length h0) mdr"
    by simp_all
  have "closedObj (length h0) (HObj [(''modelCategoryRanks'', ?mcr),
                             (''modelMethodPerformance'', VRef (length h3)),
                             (''modelDatasetRanks'', mdr)])"
    using o o3 om by (simp add: closedObj_def)
  from framed_snoc [OF f6 this] show ?thesis
    by (simp add: h')
qed

text \<open>On the store, too, the functions throw for the model key \<^verbatim>\<open>constructor\<close>.\<close>

lemma constructorHeap_throws:
  "h_computeDetailedStats (VRef 4) (VRef 6) constructorHeap = None"
  "h_computeModelDatasetRanks (VRef 4) (VRef 5) constructorHeap = None"
  by code_simp+

text \<open>
  Claim C8. When \<^verbatim>\<open>computeDetailedStats\<close> or \<^verbatim>\<open>computeModelDatasetRanks\<close> returns, every
  object and array that was in the store before the call is as it was: the functions
  write only to objects and arrays that they have created themselves. This holds for every
  store and all arguments, in particular for every cell of the raw table and of the summary.
\<close>

theorem inputs_not_mutated:
  "(\<forall>result h'. h_computeDetailedStats rawData stats h = Some (result, h')
      \<longrightarrow> length h \<le> length h' \<and> (\<forall>a < length h. h' ! a = h ! a))
   \<and> (\<forall>result h'. h_computeModelDatasetRanks rawData modelRanks h = Some (result, h')
      \<longrightarrow> length h \<le> length h' \<and> (\<forall>a < length h. h' ! a = h ! a))"
proof -
  have 1: "length h \<le> length h' \<and> (\<forall>a < length h. h' ! a = h ! a)"
    if "h_computeDetailedStats rawData stats h = Some (result, h')" for result h'
    using framed_computeDetailedStats [OF framed_refl that] by (simp add: framed_def)
  have 2: "length h \<le> length h' \<and> (\<forall>a < length h. h' ! a = h ! a)"
    if "h_computeModelDatasetRanks rawData modelRanks h = Some (result, h')" for result h'
    using framed_computeModelDatasetRanks [OF framed_refl that] by (simp add: framed_def)
  from 1 2 show ?thesis by blast
qed

lemma exampleHeap_computeDetailedStats:
  "(case h_computeDetailedStats (VRef 6) (VRef 11) exampleHeap of None \<Rightarrow> False | Some _ \<Rightarrow> True)"
  by code_simp

lemma exampleHeap_computeModelDatasetRanks:
  "(case h_computeModelDatasetRanks (VRef 6) (VRef 8) exampleHeap of None \<Rightarrow> False | Some _ \<Rightarrow> True)"
  by code_simp

text \<open>The theorem at the example store, where both functions return.\<close>

theorem inputs_not_mutated_witness:
  "(\<exists>result h'. h_computeDetailedStats (VRef 6) (VRef 11) exampleHeap = Some (result, h')
       \<and> length exampleHeap \<le> length h' \<and> (\<forall>a < length exampleHeap. h' ! a = exampleHeap ! a))
   \<and> (\<exists>result h'. h_computeModelDatasetRanks (VRef 6) (VRef 8) exampleHeap = Some (result, h')
       \<and> length exampleHeap \<le> length h' \<and> (\<forall>a < length exampleHeap. h' ! a = exampleHeap ! a))"
proof -
  note T = inputs_not_mutated [of "VRef 6" "VRef 11" exampleHeap "VRef 8"]
  from exampleHeap_computeDetailedStats obtain r1 h1 where
    1: "h_computeDetailedStats (VRef 6) (VRef 11) exampleHeap = Some (r1, h1)"
    by (cases "h_computeDetailedStats (VRef 6) (VRef 11) exampleHeap") auto
  from exampleHeap_computeModelDatasetRanks obtain r2 h2 where
    2: "h_computeModelDatasetRanks (VRef 6) (VRef 8) exampleHeap = Some (r2, h2)"
    by (cases "h_computeModelDatasetRanks (VRef 6) (VRef 8) exampleHeap") auto
  from T 1 have "length exampleHeap \<le> length h1 \<and> (\<forall>a < length exampleHeap. h1 ! a = exampleHeap ! a)"
    by blast
  moreover from T 2 have "length exampleHeap \<le> length h2 \<and> (\<forall>a < length exampleHeap. h2 ! a = exampleHeap ! a)"
    by blast
  ultimately show ?thesis
    using 1 2 by blast
qed

subsection \<open>The store: a second call\<close>

lemma moved_prim [simp]:
  "moved h0 G VUndefined = VUndefined" "moved h0 G VNull = VNull" "moved h0 G (VNum x) = VNum x"
  "moved h0 G (VStr s) = VStr s" "moved h0 G VBuiltin = VBuiltin"
  by (simp_all add: moved_def)

lemma moved_below: "below (length h0) v \<Longrightarrow> moved h0 G v = v"
  by (cases v) (simp_all add: moved_def below_def)

lemma moved_own: "length h0 \<le> a \<Longrightarrow> moved h0 G (VRef a) = VRef (a + length G)"
  by (simp add: moved_def)

lemma truthy_moved [simp]: "truthy (moved h0 G v) = truthy v"
  by (cases v) (simp_all add: moved_def)

lemma asNum_moved [simp]: "asNum (moved h0 G v) = asNum v"
  by (cases v) (simp_all add: moved_def)

lemma asStr_moved [simp]: "asStr (moved h0 G v) = asStr v"
  by (cases v) (simp_all add: moved_def)

lemma length_relocate:
  "framed h0 s \<Longrightarrow> length (relocate h0 G s) = length s + length G"
  by (simp add: relocate_def framed_def)

lemma framed_take: "framed h0 s \<Longrightarrow> take (length h0) s = h0"
  by (auto simp: framed_def list_eq_iff_nth_eq)

lemma relocate_nth_old:
  assumes "framed h0 s" and "a < length h0"
  shows "relocate h0 G s ! a = s ! a"
  using assms by (simp add: relocate_def nth_append framed_def)

lemma relocate_nth_new:
  assumes "framed h0 s" and "length h0 \<le> a" and "a < length s"
  shows "relocate h0 G s ! (a + length G) = movedObj h0 G (s ! a)"
proof -
  define i where "i = a - length h0"
  with assms have a: "a = length h0 + i" and i: "i < length s - length h0"
    by simp_all
  have "relocate h0 G s ! (length h0 + (length G + i))
      = map (movedObj h0 G) (drop (length h0) s) ! i"
    unfolding relocate_def by (simp only: nth_append_length_plus)
  also have "\<dots> = movedObj h0 G (s ! (length h0 + i))"
    using i by simp
  finally show ?thesis
    by (simp add: a add.commute add.left_commute)
qed

lemma relocate_snoc:
  assumes "framed h0 s"
  shows "relocate h0 G (s @ [ob]) = relocate h0 G s @ [movedObj h0 G ob]"
  using assms by (simp add: relocate_def framed_def)

lemma relocate_update:
  assumes "framed h0 s" and "length h0 \<le> a" and "a < length s"
  shows "relocate h0 G (s[a := ob]) = (relocate h0 G s)[a + length G := movedObj h0 G ob]"
proof -
  define i where "i = a - length h0"
  with assms have a: "a = length h0 + i" and i: "i < length s - length h0"
    by simp_all
  have d: "drop (length h0) (s[a := ob]) = (drop (length h0) s)[i := ob]"
    using assms by (simp add: drop_update_swap i_def)
  have "(h0 @ G @ map (movedObj h0 G) (drop (length h0) s))[length h0 + (length G + i) := movedObj h0 G ob]
      = h0 @ G @ (map (movedObj h0 G) (drop (length h0) s))[i := movedObj h0 G ob]"
    by (simp add: list_update_append)
  then show ?thesis
    unfolding relocate_def d by (simp add: a map_update add.commute add.left_commute)
qed

lemma old_cell_closed:
  assumes "framed h0 s" and "closedHeap h0" and "a < length h0"
  shows "movedObj h0 G (s ! a) = s ! a"
proof -
  from assms(1,3) have e: "s ! a = h0 ! a" by (simp add: framed_def)
  from assms(2,3) have c: "case h0 ! a of
        HObj ps \<Rightarrow> (\<forall>v \<in> snd ` set ps. below (length h0) v)
      | HArr xs \<Rightarrow> (\<forall>v \<in> set xs. below (length h0) v)"
    by (simp add: closedHeap_def)
  show ?thesis
  proof (cases "h0 ! a")
    case (HObj ps)
    with c have "\<forall>p \<in> set ps. moved h0 G (snd p) = snd p"
      by (auto intro: moved_below)
    then have "map (\<lambda>p. (fst p, moved h0 G (snd p))) ps = ps"
      by (induction ps) auto
    with HObj e show ?thesis by (simp add: movedObj_def)
  next
    case (HArr xs)
    with c have "\<forall>v \<in> set xs. moved h0 G v = v"
      by (auto intro: moved_below)
    then have "map (moved h0 G) xs = xs"
      by (induction xs) auto
    with HArr e show ?thesis by (simp add: movedObj_def)
  qed
qed

text \<open>The cell that a moved reference points to is the moved cell.\<close>

lemma relocate_cell:
  assumes "framed h0 s" and "closedHeap h0" and "a < length s"
  shows "moved h0 G (VRef a) = VRef b \<Longrightarrow> b < length (relocate h0 G s)
           \<and> relocate h0 G s ! b = movedObj h0 G (s ! a)"
proof (cases "a < length h0")
  case True
  assume "moved h0 G (VRef a) = VRef b"
  with True have b: "b = a" by (simp add: moved_def)
  from relocate_nth_old [OF assms(1) True] old_cell_closed [OF assms(1,2) True]
  show ?thesis
    using assms(1,3) by (simp add: b length_relocate)
next
  case False
  assume "moved h0 G (VRef a) = VRef b"
  with False have b: "b = a + length G" by (simp add: moved_def)
  from False have "length h0 \<le> a" by simp
  from relocate_nth_new [OF assms(1) this assms(3)] show ?thesis
    using assms(1,3) by (simp add: b length_relocate)
qed

lemma moved_dangling:
  assumes "framed h0 s" and "\<not> a < length s" and "moved h0 G (VRef a) = VRef b"
  shows "\<not> b < length (relocate h0 G s)"
proof -
  from assms(1) have "length h0 \<le> length s" by (simp add: framed_def)
  with assms(2) have "\<not> a < length h0" by simp
  with assms(3) have "b = a + length G" by (simp add: moved_def)
  with assms(1,2) show ?thesis by (simp add: length_relocate)
qed

lemma readProp_sim:
  assumes "framed h0 s" and "closedHeap h0" and "readProp v key s = Some w"
  shows "readProp (moved h0 G v) key (relocate h0 G s) = Some (moved h0 G w)"
proof (cases v)
  case (VRef a)
  with assms(3) obtain ps where a: "a < length s" "s ! a = HObj ps"
    and w: "w = (case map_of ps key of Some w \<Rightarrow> w
                 | None \<Rightarrow> if key \<in> set objectPrototypeNames then VBuiltin else VUndefined)"
    by (auto simp: readProp_def split: if_splits hobj.splits)
  obtain b where b: "moved h0 G (VRef a) = VRef b"
    by (cases "a < length h0") (auto simp: moved_def)
  from relocate_cell [OF assms(1,2) a(1) b] have c: "b < length (relocate h0 G s)"
    "relocate h0 G s ! b = HObj (map (\<lambda>p. (fst p, moved h0 G (snd p))) ps)"
    by (simp_all add: a(2) movedObj_def)
  have m: "map_of (map (\<lambda>p. (fst p, moved h0 G (snd p))) ps) key
             = map_option (moved h0 G) (map_of ps key)"
    by (induction ps) auto
  show ?thesis
    by (cases "map_of ps key") (simp_all add: VRef b readProp_def c m w)
next
  case VBuiltin
  with assms(3) show ?thesis by (auto simp: readProp_def)
qed (use assms(3) in \<open>simp_all add: readProp_def\<close>)

lemma ownEntries_sim:
  assumes "framed h0 s" and "closedHeap h0" and "ownEntries v s = Some ps"
  shows "ownEntries (moved h0 G v) (relocate h0 G s)
           = Some (map (\<lambda>p. (fst p, moved h0 G (snd p))) ps)"
proof (cases v)
  case (VRef a)
  with assms(3) have a: "a < length s" "s ! a = HObj ps"
    by (auto simp: ownEntries_def split: if_splits hobj.splits)
  obtain b where b: "moved h0 G (VRef a) = VRef b"
    by (cases "a < length h0") (auto simp: moved_def)
  from relocate_cell [OF assms(1,2) a(1) b] have c: "b < length (relocate h0 G s)"
    "relocate h0 G s ! b = HObj (map (\<lambda>p. (fst p, moved h0 G (snd p))) ps)"
    by (simp_all add: a(2) movedObj_def)
  show ?thesis
    by (simp add: VRef b ownEntries_def c)
next
  case VBuiltin
  with assms(3) show ?thesis by (auto simp: ownEntries_def)
qed (use assms(3) in \<open>simp_all add: ownEntries_def\<close>)

lemma arrayElements_sim:
  assumes "framed h0 s" and "closedHeap h0" and "arrayElements v s = Some xs"
  shows "arrayElements (moved h0 G v) (relocate h0 G s) = Some (map (moved h0 G) xs)"
proof (cases v)
  case (VRef a)
  with assms(3) have a: "a < length s" "s ! a = HArr xs"
    by (auto simp: arrayElements_def split: if_splits hobj.splits)
  obtain b where b: "moved h0 G (VRef a) = VRef b"
    by (cases "a < length h0") (auto simp: moved_def)
  from relocate_cell [OF assms(1,2) a(1) b] have c: "b < length (relocate h0 G s)"
    "relocate h0 G s ! b = HArr (map (moved h0 G) xs)"
    by (simp_all add: a(2) movedObj_def)
  show ?thesis
    by (simp add: VRef b arrayElements_def c)
qed (use assms(3) in \<open>simp_all add: arrayElements_def\<close>)

lemma map_update_snd:
  "map (\<lambda>p. (fst p, f (snd p))) (AList.update k w ps)
     = AList.update k (f w) (map (\<lambda>p. (fst p, f (snd p))) ps)"
  by (induction ps) auto

lemma writeProp_sim:
  assumes "framed h0 s" and "own (length h0) v" and "writeProp v key w s = Some s'"
  shows "writeProp (moved h0 G v) key (moved h0 G w) (relocate h0 G s) = Some (relocate h0 G s')"
proof (cases v)
  case (VRef a)
  with assms(3) obtain ps where a: "a < length s" "s ! a = HObj ps"
    by (auto simp: writeProp_def split: if_splits hobj.splits)
  from assms(2) VRef have n: "length h0 \<le> a" by (simp add: own_def)
  then have b: "moved h0 G (VRef a) = VRef (a + length G)" by (rule moved_own)
  from relocate_nth_new [OF assms(1) n a(1)]
  have c: "relocate h0 G s ! (a + length G) = HObj (map (\<lambda>p. (fst p, moved h0 G (snd p))) ps)"
    by (simp add: a(2) movedObj_def)
  from assms(1) a(1) have l: "a + length G < length (relocate h0 G s)"
    by (simp add: length_relocate)
  show ?thesis
  proof (cases "key = ''__proto__''")
    case True
    with assms(3) VRef a have "s' = s \<and> (\<exists>x. w = VNum x) \<or> s' = s \<and> (\<exists>x. w = VStr x)"
      by (auto simp: writeProp_def split: val.splits)
    with True show ?thesis
      by (auto simp: VRef b writeProp_def c l)
  next
    case False
    with assms(3) VRef a have s': "s' = s[a := HObj (AList.update key w ps)]"
      by (simp add: writeProp_def)
    show ?thesis
      using False
      by (simp add: VRef b writeProp_def c l s' relocate_update [OF assms(1) n a(1)]
          movedObj_def map_update_snd)
  qed
qed (use assms(3) in \<open>simp_all add: writeProp_def\<close>)

lemma arrayPush_sim:
  assumes "framed h0 s" and "own (length h0) v" and "arrayPush v w s = Some s'"
  shows "arrayPush (moved h0 G v) (moved h0 G w) (relocate h0 G s) = Some (relocate h0 G s')"
proof (cases v)
  case (VRef a)
  with assms(3) obtain xs where a: "a < length s" "s ! a = HArr xs"
    and s': "s' = s[a := HArr (xs @ [w])]"
    by (auto simp: arrayPush_def split: if_splits hobj.splits)
  from assms(2) VRef have n: "length h0 \<le> a" by (simp add: own_def)
  then have b: "moved h0 G (VRef a) = VRef (a + length G)" by (rule moved_own)
  from relocate_nth_new [OF assms(1) n a(1)]
  have c: "relocate h0 G s ! (a + length G) = HArr (map (moved h0 G) xs)"
    by (simp add: a(2) movedObj_def)
  from assms(1) a(1) have l: "a + length G < length (relocate h0 G s)"
    by (simp add: length_relocate)
  show ?thesis
    by (simp add: VRef b arrayPush_def c l s' relocate_update [OF assms(1) n a(1)] movedObj_def)
qed (use assms(3) in \<open>simp_all add: arrayPush_def\<close>)

lemma moved_fresh:
  assumes "framed h0 s"
  shows "moved h0 G (VRef (length s)) = VRef (length (relocate h0 G s))"
  using assms by (simp add: moved_def framed_def length_relocate)

lemma readStr_sim:
  assumes "framed h0 s" and "closedHeap h0" and "readStr v key s = Some x"
  shows "readStr (moved h0 G v) key (relocate h0 G s) = Some x"
proof -
  from assms(3) obtain w where w: "readProp v key s = Some w" "asStr w = Some x"
    by (auto simp: readStr_def bind_eq_Some_conv)
  from readProp_sim [OF assms(1,2) w(1)] w(2) show ?thesis
    by (simp add: readStr_def)
qed

lemma readNum_sim:
  assumes "framed h0 s" and "closedHeap h0" and "readNum v key s = Some x"
  shows "readNum (moved h0 G v) key (relocate h0 G s) = Some x"
proof -
  from assms(3) obtain w where w: "readProp v key s = Some w" "asNum w = Some x"
    by (auto simp: readNum_def bind_eq_Some_conv)
  from readProp_sim [OF assms(1,2) w(1)] w(2) show ?thesis
    by (simp add: readNum_def)
qed

lemma numbers_sim:
  assumes "framed h0 s" and "closedHeap h0" and "numbers v s = Some xs"
  shows "numbers (moved h0 G v) (relocate h0 G s) = Some xs"
proof -
  from assms(3) obtain ys where ys: "arrayElements v s = Some ys" "those (map asNum ys) = Some xs"
    by (auto simp: numbers_def bind_eq_Some_conv)
  have "map asNum (map (moved h0 G) ys) = map asNum ys"
    by simp
  with arrayElements_sim [OF assms(1,2) ys(1)] ys(2) show ?thesis
    by (simp add: numbers_def del: map_map)
qed

lemma forEach_sim:
  assumes "\<And>x s s'. x \<in> set xs \<Longrightarrow> framed h0 s \<Longrightarrow> f x s = Some s'
             \<Longrightarrow> framed h0 s' \<and> g (mv x) (relocate h0 G s) = Some (relocate h0 G s')"
    and "framed h0 s" and "forEach f xs s = Some s'"
  shows "forEach g (map mv xs) (relocate h0 G s) = Some (relocate h0 G s')"
  using assms
proof (induction xs arbitrary: s)
  case Nil
  then show ?case by simp
next
  case (Cons x xs)
  from Cons.prems(3) obtain s1 where s1: "f x s = Some s1" "forEach f xs s1 = Some s'"
    by (auto split: option.splits)
  from Cons.prems(1) [of x s s1] Cons.prems(2) s1(1)
  have 1: "framed h0 s1" and 2: "g (mv x) (relocate h0 G s) = Some (relocate h0 G s1)"
    by simp_all
  have "forEach g (map mv xs) (relocate h0 G s1) = Some (relocate h0 G s')"
  proof (rule Cons.IH [OF _ 1 s1(2)])
    fix y sa sb
    assume "y \<in> set xs" "framed h0 sa" "f y sa = Some sb"
    then show "framed h0 sb \<and> g (mv y) (relocate h0 G sa) = Some (relocate h0 G sb)"
      using Cons.prems(1) [of y sa sb] by simp
  qed
  with 2 show ?case by simp
qed

lemma those_SomeD: "those xs = Some ys \<Longrightarrow> x \<in> set xs \<Longrightarrow> \<exists>y. x = Some y"
  by (induction xs arbitrary: ys) (auto split: option.splits)

lemma sim_scoreItem:
  assumes "framed h0 s" and "closedHeap h0" and "h_scoreItem s e = Some it"
  shows "h_scoreItem (relocate h0 G s) (fst e, moved h0 G (snd e)) = Some it"
proof -
  obtain k m where e: "e = (k, m)" by (cases e) auto
  from assms(3) obtain d where d: "readProp m ''Mean_Dice'' s = Some d"
    by (auto simp: h_scoreItem_def e bind_eq_Some_conv)
  note d' = readProp_sim [OF assms(1,2) d, of G]
  show ?thesis
  proof (cases "truthy d")
    case False
    with assms(3) d d' show ?thesis by (simp add: h_scoreItem_def e)
  next
    case True
    with assms(3) d obtain x where x: "readNum d ''mean'' s = Some x"
      and it: "it = [\<lparr>model = k, score = x\<rparr>]"
      by (auto simp: h_scoreItem_def e bind_eq_Some_conv)
    from readNum_sim [OF assms(1,2) x, of G] d' True it show ?thesis
      by (simp add: h_scoreItem_def e)
  qed
qed

lemma sim_scoresOf:
  assumes "framed h0 s" and "closedHeap h0" and "h_scoresOf v s = Some sc"
  shows "h_scoresOf (moved h0 G v) (relocate h0 G s) = Some sc"
proof -
  from assms(3) obtain es items where es: "ownEntries v s = Some es"
    and items: "those (map (h_scoreItem s) es) = Some items"
    and sc: "sc = sort_key (\<lambda>item. - score item) (concat items)"
    by (auto simp: h_scoresOf_def bind_eq_Some_conv)
  have "h_scoreItem (relocate h0 G s) (fst e, moved h0 G (snd e)) = h_scoreItem s e"
    if "e \<in> set es" for e
  proof -
    from that have "h_scoreItem s e \<in> set (map (h_scoreItem s) es)" by simp
    from those_SomeD [OF items this] obtain it where "h_scoreItem s e = Some it" by blast
    with sim_scoreItem [OF assms(1,2) this] show ?thesis by simp
  qed
  then have "map (h_scoreItem (relocate h0 G s)) (map (\<lambda>p. (fst p, moved h0 G (snd p))) es)
      = map (h_scoreItem s) es"
    by (simp add: comp_def)
  with ownEntries_sim [OF assms(1,2) es, of G] items sc show ?thesis
    by (simp add: h_scoresOf_def del: map_map)
qed

lemma sim_initCategoryEntry:
  assumes "framed h0 s" and "closedHeap h0" and "own (length h0) t"
    and "h_initCategoryEntry t m s = Some s'"
  shows "h_initCategoryEntry (moved h0 G t) (moved h0 G m) (relocate h0 G s)
           = Some (relocate h0 G s')"
proof -
  let ?n = "length h0"
  let ?entry = "\<lambda>display avg a. HObj [(''model'', VStr display), (''overall'', VNum avg),
                      (''Nuclear'', VRef a), (''Gland'', VRef (Suc a)),
                      (''Tissue'', VRef (Suc (Suc a)))]"
  from assms(4) obtain key display avg where
    k: "readStr m ''model_key'' s = Some key"
    and d: "readStr m ''model_display'' s = Some display"
    and a: "readNum m ''avg_rank'' s = Some avg"
    and w: "writeProp t key (VRef (Suc (Suc (Suc (length s)))))
          (s @ [HArr [], HArr [], HArr [], ?entry display avg (length s)]) = Some s'"
    by (auto simp: h_initCategoryEntry_def bind_eq_Some_conv alloc_def)
  from assms(1) have le: "?n \<le> length s" by (simp add: framed_def)
  have 1: "framed h0 (s @ [HArr []])"
    by (rule framed_snoc [OF assms(1)]) simp
  have 2: "framed h0 ((s @ [HArr []]) @ [HArr []])"
    by (rule framed_snoc [OF 1]) simp
  have 3: "framed h0 (((s @ [HArr []]) @ [HArr []]) @ [HArr []])"
    by (rule framed_snoc [OF 2]) simp
  have 4: "framed h0 ((((s @ [HArr []]) @ [HArr []]) @ [HArr []]) @ [?entry display avg (length s)])"
    by (rule framed_snoc [OF 3]) (use le in \<open>simp add: closedObj_def own_def\<close>)
  then have f4: "framed h0 (s @ [HArr [], HArr [], HArr [], ?entry display avg (length s)])"
    by simp
  have r: "relocate h0 G (s @ [HArr [], HArr [], HArr [], ?entry display avg (length s)])
      = relocate h0 G s @ [HArr [], HArr [], HArr [],
           ?entry display avg (length (relocate h0 G s))]"
  proof -
    have "relocate h0 G ((((s @ [HArr []]) @ [HArr []]) @ [HArr []]) @ [?entry display avg (length s)])
        = (((relocate h0 G s @ [movedObj h0 G (HArr [])]) @ [movedObj h0 G (HArr [])])
             @ [movedObj h0 G (HArr [])]) @ [movedObj h0 G (?entry display avg (length s))]"
      by (simp only: relocate_snoc [OF 3] relocate_snoc [OF 2] relocate_snoc [OF 1]
          relocate_snoc [OF assms(1)])
    moreover have "movedObj h0 G (?entry display avg (length s))
        = ?entry display avg (length (relocate h0 G s))"
      using le by (simp add: movedObj_def moved_def length_relocate [OF assms(1)])
    ultimately show ?thesis
      by (simp add: movedObj_def)
  qed
  have o: "own ?n (VRef (Suc (Suc (Suc (length s)))))"
    using le by (simp add: own_def)
  have mo: "moved h0 G (VRef (Suc (Suc (Suc (length s)))))
      = VRef (Suc (Suc (Suc (length (relocate h0 G s)))))"
    using le by (simp add: moved_def length_relocate [OF assms(1)])
  from writeProp_sim [OF f4 assms(3) w, of G]
  have "writeProp (moved h0 G t) key (VRef (Suc (Suc (Suc (length (relocate h0 G s))))))
          (relocate h0 G s @ [HArr [], HArr [], HArr [],
             ?entry display avg (length (relocate h0 G s))]) = Some (relocate h0 G s')"
    by (simp only: r mo)
  with readStr_sim [OF assms(1,2) k, of G] readStr_sim [OF assms(1,2) d, of G]
    readNum_sim [OF assms(1,2) a, of G]
  show ?thesis
    by (simp add: h_initCategoryEntry_def alloc_def)
qed

lemma sim_rankStep:
  assumes "framed h0 s" and "closedHeap h0" and "own (length h0) t"
    and "h_rankStep t c p s = Some s'"
  shows "h_rankStep (moved h0 G t) c p (relocate h0 G s) = Some (relocate h0 G s')"
proof -
  obtain idx item where p: "p = (idx, item)" by (cases p) auto
  from assms(4) obtain entry where e: "readProp t (model item) s = Some entry"
    by (auto simp: h_rankStep_def p bind_eq_Some_conv)
  note e' = readProp_sim [OF assms(1,2) e, of G]
  show ?thesis
  proof (cases "truthy entry")
    case False
    with assms(4) e e' show ?thesis
      by (simp add: h_rankStep_def p)
  next
    case True
    with assms(4) e obtain ranks where r: "readProp entry (categoryName c) s = Some ranks"
      and pu: "arrayPush ranks (VNum (real (idx + 1))) s = Some s'"
      by (auto simp: h_rankStep_def p bind_eq_Some_conv)
    from own_readProp [OF assms(1,3) e] have oe: "own (length h0) entry" .
    from own_readProp [OF assms(1) oe r] have orr: "own (length h0) ranks" .
    from arrayPush_sim [OF assms(1) orr pu, of G] readProp_sim [OF assms(1,2) r, of G] e' True
    show ?thesis
      by (simp add: h_rankStep_def p)
  qed
qed

lemma sim_datasetStep:
  assumes "framed h0 s" and "closedHeap h0" and "own (length h0) t"
    and "h_datasetStep t q s = Some s'"
  shows "h_datasetStep (moved h0 G t) (fst q, moved h0 G (snd q)) (relocate h0 G s)
           = Some (relocate h0 G s')"
proof -
  obtain dataset models where q: "q = (dataset, models)" by (cases q) auto
  show ?thesis
  proof (cases "getDatasetCategory dataset")
    case Other
    with assms(4) show ?thesis by (simp add: h_datasetStep_def q)
  next
    case (Category c)
    with assms(4) obtain scores where sc: "h_scoresOf models s = Some scores"
      and f: "forEach (h_rankStep t c) (enumerate 0 scores) s = Some s'"
      by (auto simp: h_datasetStep_def q bind_eq_Some_conv)
    have "forEach (h_rankStep (moved h0 G t) c) (map (\<lambda>p. p) (enumerate 0 scores)) (relocate h0 G s)
        = Some (relocate h0 G s')"
    proof (rule forEach_sim [OF _ assms(1) f])
      fix x sa sb
      assume "framed h0 sa" "h_rankStep t c x sa = Some sb"
      then show "framed h0 sb
          \<and> h_rankStep (moved h0 G t) c x (relocate h0 G sa) = Some (relocate h0 G sb)"
        using framed_rankStep [OF _ assms(3)] sim_rankStep [OF _ assms(2,3)] by blast
    qed
    with sim_scoresOf [OF assms(1,2) sc, of G] Category show ?thesis
      by (simp add: h_datasetStep_def q)
  qed
qed

lemma sim_collectCategoryRanks:
  assumes "framed h0 s" and "closedHeap h0" and "own (length h0) t"
    and "h_collectCategoryRanks t rawData s = Some s'"
  shows "h_collectCategoryRanks (moved h0 G t) (moved h0 G rawData) (relocate h0 G s)
           = Some (relocate h0 G s')"
proof -
  let ?body = "\<lambda>t. (\<lambda>(meth :: string, methodData) h. do {
                datasets \<leftarrow> ownEntries methodData h;
                forEach (h_datasetStep t) datasets h })"
  let ?mv = "\<lambda>p :: string \<times> val. (fst p, moved h0 G (snd p))"
  from assms(4) obtain methods where m: "ownEntries rawData s = Some methods"
    and f: "forEach (?body t) methods s = Some s'"
    by (auto simp: h_collectCategoryRanks_def bind_eq_Some_conv)
  have "forEach (?body (moved h0 G t)) (map ?mv methods) (relocate h0 G s)
      = Some (relocate h0 G s')"
  proof (rule forEach_sim [OF _ assms(1) f])
    fix x :: "string \<times> val" and sa sb
    assume sa: "framed h0 sa" and b: "?body t x sa = Some sb"
    obtain meth methodData where x: "x = (meth, methodData)" by (cases x) auto
    from b obtain datasets where d: "ownEntries methodData sa = Some datasets"
      and g: "forEach (h_datasetStep t) datasets sa = Some sb"
      by (auto simp: x bind_eq_Some_conv)
    have fr: "framed h0 sb"
      by (rule framed_forEach [OF _ sa g]) (rule framed_datasetStep [OF _ assms(3)])
    have "forEach (h_datasetStep (moved h0 G t)) (map ?mv datasets) (relocate h0 G sa)
        = Some (relocate h0 G sb)"
    proof (rule forEach_sim [OF _ sa g])
      fix y sc sd
      assume "framed h0 sc" "h_datasetStep t y sc = Some sd"
      then show "framed h0 sd
          \<and> h_datasetStep (moved h0 G t) (?mv y) (relocate h0 G sc) = Some (relocate h0 G sd)"
        using framed_datasetStep [OF _ assms(3)] sim_datasetStep [OF _ assms(2,3)] by blast
    qed
    with ownEntries_sim [OF sa assms(2) d, of G] fr
    show "framed h0 sb \<and> ?body (moved h0 G t) (?mv x) (relocate h0 G sa) = Some (relocate h0 G sb)"
      by (simp add: x)
  qed
  with ownEntries_sim [OF assms(1,2) m, of G] show ?thesis
    by (simp add: h_collectCategoryRanks_def)
qed

lemma sim_averageCategory:
  assumes "framed h0 s" and "closedHeap h0" and "own (length h0) e"
    and "h_averageCategory e c s = Some s'"
  shows "h_averageCategory (moved h0 G e) c (relocate h0 G s) = Some (relocate h0 G s')"
proof -
  from assms(4) obtain arr ranks where a: "readProp e (categoryName c) s = Some arr"
    and r: "numbers arr s = Some ranks"
    and w: "writeProp e (categoryName c @ ''Avg'')
              (VNum (if length ranks > 0 then reduceSum ranks / real (length ranks) else 999)) s
            = Some s'"
    by (auto simp: h_averageCategory_def bind_eq_Some_conv simp del: length_greater_0_conv)
  from writeProp_sim [OF assms(1,3) w, of G] readProp_sim [OF assms(1,2) a, of G]
    numbers_sim [OF assms(1,2) r, of G]
  show ?thesis
    by (simp add: h_averageCategory_def del: length_greater_0_conv)
qed

lemma sim_averageCategories:
  assumes "framed h0 s" and "closedHeap h0" and "own (length h0) t"
    and "h_averageCategories t s = Some s'"
  shows "h_averageCategories (moved h0 G t) (relocate h0 G s) = Some (relocate h0 G s')"
proof -
  let ?body = "\<lambda>modelData. forEach (h_averageCategory modelData) [Nuclear, Gland, Tissue]"
  from assms(4) obtain es where es: "ownEntries t s = Some es"
    and f: "forEach ?body (map snd es) s = Some s'"
    by (auto simp: h_averageCategories_def bind_eq_Some_conv)
  from own_ownEntries [OF assms(1,3) es] have o: "\<forall>w \<in> set (map snd es). own (length h0) w"
    by simp
  have "forEach ?body (map (moved h0 G) (map snd es)) (relocate h0 G s) = Some (relocate h0 G s')"
  proof (rule forEach_sim [OF _ assms(1) f])
    fix e sa sb
    assume e: "e \<in> set (map snd es)" and sa: "framed h0 sa" and g: "?body e sa = Some sb"
    from o e have oe: "own (length h0) e" by blast
    have fr: "framed h0 sb"
      by (rule framed_forEach [OF _ sa g]) (rule framed_averageCategory [OF _ oe])
    have "forEach (h_averageCategory (moved h0 G e)) (map (\<lambda>c. c) [Nuclear, Gland, Tissue])
            (relocate h0 G sa) = Some (relocate h0 G sb)"
    proof (rule forEach_sim [OF _ sa g])
      fix c sc sd
      assume "framed h0 sc" "h_averageCategory e c sc = Some sd"
      then show "framed h0 sd
          \<and> h_averageCategory (moved h0 G e) c (relocate h0 G sc) = Some (relocate h0 G sd)"
        using framed_averageCategory [OF _ oe] sim_averageCategory [OF _ assms(2) oe] by blast
    qed
    with fr show "framed h0 sb \<and> ?body (moved h0 G e) (relocate h0 G sa) = Some (relocate h0 G sb)"
      by simp
  qed
  with ownEntries_sim [OF assms(1,2) es, of G] show ?thesis
    by (simp add: h_averageCategories_def comp_def)
qed

lemma sim_newMethodEntry:
  assumes "framed h0 s" and "closedHeap h0" and "own (length h0) t"
    and "h_newMethodEntry t k s = Some s'"
  shows "h_newMethodEntry (moved h0 G t) k (relocate h0 G s) = Some (relocate h0 G s')"
proof -
  let ?body = "\<lambda>t m h. do {
                e \<leftarrow> readProp t k h;
                let (arr, h) = alloc (HArr []) h;
                writeProp e m arr h }"
  from assms(4) obtain s1 where
    w: "writeProp t k (VRef (length s)) (s @ [HObj []]) = Some s1"
    and f: "forEach (?body t) CONFIG_methods s1 = Some s'"
    by (auto simp: h_newMethodEntry_def bind_eq_Some_conv alloc_def)
  have 1: "framed h0 (s @ [HObj []])" and o: "own (length h0) (VRef (length s))"
    by (rule framed_snoc [OF assms(1)], simp) (rule own_fresh [OF assms(1)])
  from framed_writeProp [OF 1 assms(3) o w] have s1: "framed h0 s1" .
  have w': "writeProp (moved h0 G t) k (VRef (length (relocate h0 G s))) (relocate h0 G s @ [HObj []])
      = Some (relocate h0 G s1)"
    using writeProp_sim [OF 1 assms(3) w, of G]
    by (simp add: relocate_snoc [OF assms(1)] moved_fresh [OF assms(1)] movedObj_def)
  have "forEach (?body (moved h0 G t)) (map (\<lambda>m. m) CONFIG_methods) (relocate h0 G s1)
      = Some (relocate h0 G s')"
  proof (rule forEach_sim [OF _ s1 f])
    fix m :: string and sa sb
    assume sa: "framed h0 sa" and b: "?body t m sa = Some sb"
    from b obtain e where e: "readProp t k sa = Some e"
      and w2: "writeProp e m (VRef (length sa)) (sa @ [HArr []]) = Some sb"
      by (auto simp: bind_eq_Some_conv alloc_def)
    have 2: "framed h0 (sa @ [HArr []])" and o2: "own (length h0) (VRef (length sa))"
      by (rule framed_snoc [OF sa], simp) (rule own_fresh [OF sa])
    from own_readProp [OF sa assms(3) e] have oe: "own (length h0) e" .
    from framed_writeProp [OF 2 oe o2 w2] have fr: "framed h0 sb" .
    have "writeProp (moved h0 G e) m (VRef (length (relocate h0 G sa))) (relocate h0 G sa @ [HArr []])
        = Some (relocate h0 G sb)"
      using writeProp_sim [OF 2 oe w2, of G]
      by (simp add: relocate_snoc [OF sa] moved_fresh [OF sa] movedObj_def)
    with readProp_sim [OF sa assms(2) e, of G] fr
    show "framed h0 sb \<and> ?body (moved h0 G t) m (relocate h0 G sa) = Some (relocate h0 G sb)"
      by (simp add: alloc_def)
  qed
  with w' show ?thesis
    by (simp add: h_newMethodEntry_def alloc_def)
qed

lemma sim_performanceStep:
  assumes "framed h0 s" and "closedHeap h0" and "own (length h0) t"
    and "h_performanceStep t meth p s = Some s'"
  shows "h_performanceStep (moved h0 G t) meth (fst p, moved h0 G (snd p)) (relocate h0 G s)
           = Some (relocate h0 G s')"
proof -
  obtain modelKey metrics where p: "p = (modelKey, metrics)" by (cases p) auto
  from assms(4) obtain d where d: "readProp metrics ''Mean_Dice'' s = Some d"
    by (auto simp: h_performanceStep_def p bind_eq_Some_conv)
  note d' = readProp_sim [OF assms(1,2) d, of G]
  show ?thesis
  proof (cases "truthy d")
    case False
    with assms(4) d d' show ?thesis by (simp add: h_performanceStep_def p)
  next
    case True
    with assms(4) d obtain e0 s1 e arr d1 x where
      e0: "readProp t modelKey s = Some e0"
      and s1: "(if \<not> truthy e0 then h_newMethodEntry t modelKey s else Some s) = Some s1"
      and e: "readProp t modelKey s1 = Some e"
      and arr: "readProp e meth s1 = Some arr"
      and d1: "readProp metrics ''Mean_Dice'' s1 = Some d1"
      and x: "readNum d1 ''mean'' s1 = Some x"
      and pu: "arrayPush arr (VNum x) s1 = Some s'"
      by (auto simp: h_performanceStep_def p bind_eq_Some_conv)
    from s1 assms(1,3) have f1: "framed h0 s1"
      by (auto split: if_splits intro: framed_newMethodEntry)
    have n1: "(if \<not> truthy e0 then h_newMethodEntry (moved h0 G t) modelKey (relocate h0 G s)
               else Some (relocate h0 G s)) = Some (relocate h0 G s1)"
      using s1 sim_newMethodEntry [OF assms(1,2,3), of modelKey s1 G]
      by (auto split: if_splits)
    from own_readProp [OF f1 assms(3) e] have oe: "own (length h0) e" .
    from own_readProp [OF f1 oe arr] have oa: "own (length h0) arr" .
    from arrayPush_sim [OF f1 oa pu, of G] readProp_sim [OF assms(1,2) e0, of G]
      readProp_sim [OF f1 assms(2) e, of G] readProp_sim [OF f1 assms(2) arr, of G]
      readProp_sim [OF f1 assms(2) d1, of G] readNum_sim [OF f1 assms(2) x, of G] d' True n1
    show ?thesis
      by (simp add: h_performanceStep_def p)
  qed
qed

lemma sim_collectMethodPerformance:
  assumes "framed h0 s" and "closedHeap h0" and "own (length h0) t"
    and "h_collectMethodPerformance t rawData s = Some s'"
  shows "h_collectMethodPerformance (moved h0 G t) (moved h0 G rawData) (relocate h0 G s)
           = Some (relocate h0 G s')"
proof -
  let ?inner = "\<lambda>t meth. (\<lambda>(dataset :: string, models) h. do {
                           ms \<leftarrow> ownEntries models h;
                           forEach (h_performanceStep t meth) ms h })"
  let ?body = "\<lambda>t. (\<lambda>(meth, methodData) h. do {
                datasets \<leftarrow> ownEntries methodData h;
                forEach (?inner t meth) datasets h })"
  let ?mv = "\<lambda>p :: string \<times> val. (fst p, moved h0 G (snd p))"
  from assms(4) obtain methods where m: "ownEntries rawData s = Some methods"
    and f: "forEach (?body t) methods s = Some s'"
    by (auto simp: h_collectMethodPerformance_def bind_eq_Some_conv)
  have "forEach (?body (moved h0 G t)) (map ?mv methods) (relocate h0 G s)
      = Some (relocate h0 G s')"
  proof (rule forEach_sim [OF _ assms(1) f])
    fix x :: "string \<times> val" and sa sb
    assume sa: "framed h0 sa" and b: "?body t x sa = Some sb"
    obtain meth methodData where x: "x = (meth, methodData)" by (cases x) auto
    from b obtain datasets where d: "ownEntries methodData sa = Some datasets"
      and g: "forEach (?inner t meth) datasets sa = Some sb"
      by (auto simp: x bind_eq_Some_conv)
    have step: "framed h0 sd
        \<and> ?inner (moved h0 G t) meth (?mv y) (relocate h0 G sc) = Some (relocate h0 G sd)"
      if sc: "framed h0 sc" and c: "?inner t meth y sc = Some sd" for y sc sd
    proof -
      obtain dataset models where y: "y = (dataset, models)" by (cases y) auto
      from c obtain ms where ms: "ownEntries models sc = Some ms"
        and k: "forEach (h_performanceStep t meth) ms sc = Some sd"
        by (auto simp: y bind_eq_Some_conv)
      have fr: "framed h0 sd"
        by (rule framed_forEach [OF _ sc k]) (rule framed_performanceStep [OF _ assms(3)])
      have "forEach (h_performanceStep (moved h0 G t) meth) (map ?mv ms) (relocate h0 G sc)
          = Some (relocate h0 G sd)"
      proof (rule forEach_sim [OF _ sc k])
        fix z se sf
        assume "framed h0 se" "h_performanceStep t meth z se = Some sf"
        then show "framed h0 sf
            \<and> h_performanceStep (moved h0 G t) meth (?mv z) (relocate h0 G se)
                = Some (relocate h0 G sf)"
          using framed_performanceStep [OF _ assms(3)] sim_performanceStep [OF _ assms(2,3)]
          by blast
      qed
      with ownEntries_sim [OF sc assms(2) ms, of G] fr show ?thesis
        by (simp add: y)
    qed
    have fr: "framed h0 sb"
    proof (rule framed_forEach [OF _ sa g])
      fix y sc sd
      assume "framed h0 sc" "?inner t meth y sc = Some sd"
      then show "framed h0 sd" using step by blast
    qed
    have "forEach (?inner (moved h0 G t) meth) (map ?mv datasets) (relocate h0 G sa)
        = Some (relocate h0 G sb)"
    proof (rule forEach_sim [OF _ sa g])
      fix y sc sd
      assume "framed h0 sc" "?inner t meth y sc = Some sd"
      then show "framed h0 sd
          \<and> ?inner (moved h0 G t) meth (?mv y) (relocate h0 G sc) = Some (relocate h0 G sd)"
        by (rule step)
    qed
    with ownEntries_sim [OF sa assms(2) d, of G] fr
    show "framed h0 sb \<and> ?body (moved h0 G t) (?mv x) (relocate h0 G sa) = Some (relocate h0 G sb)"
      by (simp add: x)
  qed
  with ownEntries_sim [OF assms(1,2) m, of G] show ?thesis
    by (simp add: h_collectMethodPerformance_def)
qed

lemma sim_averageMethod:
  assumes "framed h0 s" and "closedHeap h0" and "own (length h0) e"
    and "h_averageMethod e m s = Some s'"
  shows "h_averageMethod (moved h0 G e) m (relocate h0 G s) = Some (relocate h0 G s')"
proof -
  from assms(4) obtain arr scores where a: "readProp e m s = Some arr"
    and r: "numbers arr s = Some scores"
    and w: "writeProp e (m @ ''Avg'')
              (if length scores > 0 then VNum (reduceSum scores / real (length scores)) else VNull) s
            = Some s'"
    by (auto simp: h_averageMethod_def bind_eq_Some_conv simp del: length_greater_0_conv)
  have "moved h0 G (if length scores > 0 then VNum (reduceSum scores / real (length scores)) else VNull)
      = (if length scores > 0 then VNum (reduceSum scores / real (length scores)) else VNull)"
    by simp
  with writeProp_sim [OF assms(1,3) w, of G] readProp_sim [OF assms(1,2) a, of G]
    numbers_sim [OF assms(1,2) r, of G]
  show ?thesis
    by (simp add: h_averageMethod_def del: length_greater_0_conv)
qed

lemma sim_averageMethods:
  assumes "framed h0 s" and "closedHeap h0" and "own (length h0) t"
    and "h_averageMethods t s = Some s'"
  shows "h_averageMethods (moved h0 G t) (relocate h0 G s) = Some (relocate h0 G s')"
proof -
  let ?body = "\<lambda>modelData. forEach (h_averageMethod modelData) CONFIG_methods"
  from assms(4) obtain es where es: "ownEntries t s = Some es"
    and f: "forEach ?body (map snd es) s = Some s'"
    by (auto simp: h_averageMethods_def bind_eq_Some_conv)
  from own_ownEntries [OF assms(1,3) es] have o: "\<forall>w \<in> set (map snd es). own (length h0) w"
    by simp
  have "forEach ?body (map (moved h0 G) (map snd es)) (relocate h0 G s) = Some (relocate h0 G s')"
  proof (rule forEach_sim [OF _ assms(1) f])
    fix e sa sb
    assume e: "e \<in> set (map snd es)" and sa: "framed h0 sa" and g: "?body e sa = Some sb"
    from o e have oe: "own (length h0) e" by blast
    have fr: "framed h0 sb"
      by (rule framed_forEach [OF _ sa g]) (rule framed_averageMethod [OF _ oe])
    have "forEach (h_averageMethod (moved h0 G e)) (map (\<lambda>c. c) CONFIG_methods)
            (relocate h0 G sa) = Some (relocate h0 G sb)"
    proof (rule forEach_sim [OF _ sa g])
      fix c sc sd
      assume "framed h0 sc" "h_averageMethod e c sc = Some sd"
      then show "framed h0 sd
          \<and> h_averageMethod (moved h0 G e) c (relocate h0 G sc) = Some (relocate h0 G sd)"
        using framed_averageMethod [OF _ oe] sim_averageMethod [OF _ assms(2) oe] by blast
    qed
    with fr show "framed h0 sb \<and> ?body (moved h0 G e) (relocate h0 G sa) = Some (relocate h0 G sb)"
      by simp
  qed
  with ownEntries_sim [OF assms(1,2) es, of G] show ?thesis
    by (simp add: h_averageMethods_def comp_def)
qed

lemma sim_initDatasetEntry:
  assumes "framed h0 s" and "closedHeap h0" and "own (length h0) t"
    and "h_initDatasetEntry t m s = Some s'"
  shows "h_initDatasetEntry (moved h0 G t) (moved h0 G m) (relocate h0 G s)
           = Some (relocate h0 G s')"
proof -
  let ?entry = "\<lambda>display a. HObj [(''model_display'', VStr display), (''datasets'', VRef a)]"
  from assms(4) obtain key display where
    k: "readStr m ''model_key'' s = Some key"
    and d: "readStr m ''model_display'' s = Some display"
    and w: "writeProp t key (VRef (Suc (length s)))
          (s @ [HObj [], ?entry display (length s)]) = Some s'"
    by (auto simp: h_initDatasetEntry_def bind_eq_Some_conv alloc_def)
  from assms(1) have le: "length h0 \<le> length s" by (simp add: framed_def)
  have 1: "framed h0 (s @ [HObj []])"
    by (rule framed_snoc [OF assms(1)]) simp
  have 2: "framed h0 ((s @ [HObj []]) @ [?entry display (length s)])"
    by (rule framed_snoc [OF 1]) (use le in \<open>simp add: closedObj_def own_def\<close>)
  then have f2: "framed h0 (s @ [HObj [], ?entry display (length s)])"
    by simp
  have r: "relocate h0 G (s @ [HObj [], ?entry display (length s)])
      = relocate h0 G s @ [HObj [], ?entry display (length (relocate h0 G s))]"
  proof -
    have "relocate h0 G ((s @ [HObj []]) @ [?entry display (length s)])
        = (relocate h0 G s @ [movedObj h0 G (HObj [])]) @ [movedObj h0 G (?entry display (length s))]"
      by (simp only: relocate_snoc [OF 1] relocate_snoc [OF assms(1)])
    moreover have "movedObj h0 G (?entry display (length s))
        = ?entry display (length (relocate h0 G s))"
      using le by (simp add: movedObj_def moved_def length_relocate [OF assms(1)])
    ultimately show ?thesis
      by (simp add: movedObj_def)
  qed
  have mo: "moved h0 G (VRef (Suc (length s))) = VRef (Suc (length (relocate h0 G s)))"
    using le by (simp add: moved_def length_relocate [OF assms(1)])
  from writeProp_sim [OF f2 assms(3) w, of G]
  have "writeProp (moved h0 G t) key (VRef (Suc (length (relocate h0 G s))))
          (relocate h0 G s @ [HObj [], ?entry display (length (relocate h0 G s))])
        = Some (relocate h0 G s')"
    by (simp only: r mo)
  with readStr_sim [OF assms(1,2) k, of G] readStr_sim [OF assms(1,2) d, of G]
  show ?thesis
    by (simp add: h_initDatasetEntry_def alloc_def)
qed

lemma sim_allDatasets:
  assumes "framed h0 s" and "closedHeap h0" and "h_allDatasets rawData s = Some ds"
  shows "h_allDatasets (moved h0 G rawData) (relocate h0 G s) = Some ds"
proof -
  let ?mv = "\<lambda>p :: string \<times> val. (fst p, moved h0 G (snd p))"
  from assms(3) obtain methods datasets where m: "ownEntries rawData s = Some methods"
    and d: "those (map (\<lambda>methodData. ownEntries methodData s) (map snd methods)) = Some datasets"
    and ds: "ds = foldl (\<lambda>s ds. foldl setAdd s (map fst ds)) [] datasets"
    by (auto simp: h_allDatasets_def bind_eq_Some_conv)
  have each: "ownEntries (moved h0 G v) (relocate h0 G s) = map_option (map ?mv) (ownEntries v s)"
    if "v \<in> set (map snd methods)" for v
  proof -
    from that have "ownEntries v s \<in> set (map (\<lambda>methodData. ownEntries methodData s) (map snd methods))"
      by auto
    from those_SomeD [OF d this] obtain ps where ps: "ownEntries v s = Some ps" by blast
    from ownEntries_sim [OF assms(1,2) ps, of G] ps show ?thesis by simp
  qed
  have th: "those (map (map_option (map ?mv)) xs) = map_option (map (map ?mv)) (those xs)"
    for xs :: "(string \<times> val) list option list"
  proof (induction xs)
    case Nil
    show ?case by simp
  next
    case (Cons x xs)
    then show ?case by (cases x; cases "those xs") simp_all
  qed
  have "map (\<lambda>methodData. ownEntries methodData (relocate h0 G s)) (map snd (map ?mv methods))
      = map (map_option (map ?mv)) (map (\<lambda>methodData. ownEntries methodData s) (map snd methods))"
    using each by (simp add: comp_def)
  then have "those (map (\<lambda>methodData. ownEntries methodData (relocate h0 G s))
                     (map snd (map ?mv methods)))
      = Some (map (map ?mv) datasets)"
    by (simp only: th d option.map)
  moreover have "foldl (\<lambda>s ds. foldl setAdd s (map fst ds)) acc (map (map ?mv) datasets)
      = foldl (\<lambda>s ds. foldl setAdd s (map fst ds)) acc datasets" for acc
    by (induction datasets arbitrary: acc) (simp_all add: comp_def)
  ultimately show ?thesis
    using ownEntries_sim [OF assms(1,2) m, of G] ds
    by (simp add: h_allDatasets_def del: map_map)
qed

lemma sim_ranksByMethodStep:
  assumes "framed h0 s" and "closedHeap h0" and "own (length h0) t"
    and "h_ranksByMethodStep t p s = Some s'"
  shows "h_ranksByMethodStep (moved h0 G t) p (relocate h0 G s) = Some (relocate h0 G s')"
proof -
  obtain idx item where p: "p = (idx, item)" by (cases p) auto
  let ?create = "\<lambda>t h. do { let (arr, h) = alloc (HArr []) h;
                     writeProp t (model item) arr h }"
  from assms(4) obtain r s1 ranks where
    r: "readProp t (model item) s = Some r"
    and s1: "(if \<not> truthy r then ?create t s else Some s) = Some s1"
    and ranks: "readProp t (model item) s1 = Some ranks"
    and pu: "arrayPush ranks (VNum (real (idx + 1))) s1 = Some s'"
    by (auto simp: h_ranksByMethodStep_def p bind_eq_Some_conv)
  have f1: "framed h0 s1
      \<and> (if \<not> truthy r then ?create (moved h0 G t) (relocate h0 G s) else Some (relocate h0 G s))
          = Some (relocate h0 G s1)"
  proof (cases "truthy r")
    case True
    with s1 assms(1) show ?thesis by simp
  next
    case False
    with s1 have w: "writeProp t (model item) (VRef (length s)) (s @ [HArr []]) = Some s1"
      by (simp add: alloc_def)
    have 1: "framed h0 (s @ [HArr []])" and o: "own (length h0) (VRef (length s))"
      by (rule framed_snoc [OF assms(1)], simp) (rule own_fresh [OF assms(1)])
    from framed_writeProp [OF 1 assms(3) o w] have "framed h0 s1" .
    moreover have "writeProp (moved h0 G t) (model item) (VRef (length (relocate h0 G s)))
          (relocate h0 G s @ [HArr []]) = Some (relocate h0 G s1)"
      using writeProp_sim [OF 1 assms(3) w, of G]
      by (simp add: relocate_snoc [OF assms(1)] moved_fresh [OF assms(1)] movedObj_def)
    ultimately show ?thesis
      using False by (simp add: alloc_def)
  qed
  then have fr: "framed h0 s1" by simp
  from own_readProp [OF fr assms(3) ranks] have orr: "own (length h0) ranks" .
  from arrayPush_sim [OF fr orr pu, of G] readProp_sim [OF assms(1,2) r, of G]
    readProp_sim [OF fr assms(2) ranks, of G] f1
  show ?thesis
    by (simp add: h_ranksByMethodStep_def p)
qed

lemma sim_collectDatasetRanks:
  assumes "framed h0 s" and "closedHeap h0" and "own (length h0) t"
    and "h_collectDatasetRanks t rawData dataset s = Some s'"
  shows "h_collectDatasetRanks (moved h0 G t) (moved h0 G rawData) dataset (relocate h0 G s)
           = Some (relocate h0 G s')"
proof -
  let ?body = "\<lambda>t. (\<lambda>(meth :: string, methodData) h. do {
                models \<leftarrow> readProp methodData dataset h;
                if \<not> truthy models then Some h
                else do {
                  models \<leftarrow> readProp methodData dataset h;
                  scores \<leftarrow> h_scoresOf models h;
                  forEach (h_ranksByMethodStep t) (enumerate 0 scores) h } })"
  let ?mv = "\<lambda>p :: string \<times> val. (fst p, moved h0 G (snd p))"
  from assms(4) obtain methods where m: "ownEntries rawData s = Some methods"
    and f: "forEach (?body t) methods s = Some s'"
    by (auto simp: h_collectDatasetRanks_def bind_eq_Some_conv)
  have "forEach (?body (moved h0 G t)) (map ?mv methods) (relocate h0 G s)
      = Some (relocate h0 G s')"
  proof (rule forEach_sim [OF _ assms(1) f])
    fix x :: "string \<times> val" and sa sb
    assume sa: "framed h0 sa" and b: "?body t x sa = Some sb"
    obtain meth methodData where x: "x = (meth, methodData)" by (cases x) auto
    from b obtain models where mo: "readProp methodData dataset sa = Some models"
      by (auto simp: x bind_eq_Some_conv)
    note mo' = readProp_sim [OF sa assms(2) mo, of G]
    show "framed h0 sb \<and> ?body (moved h0 G t) (?mv x) (relocate h0 G sa) = Some (relocate h0 G sb)"
    proof (cases "truthy models")
      case False
      with b mo mo' sa show ?thesis by (simp add: x)
    next
      case True
      with b mo obtain scores where sc: "h_scoresOf models sa = Some scores"
        and g: "forEach (h_ranksByMethodStep t) (enumerate 0 scores) sa = Some sb"
        by (auto simp: x bind_eq_Some_conv)
      have fr: "framed h0 sb"
        by (rule framed_forEach [OF _ sa g]) (rule framed_ranksByMethodStep [OF _ assms(3)])
      have "forEach (h_ranksByMethodStep (moved h0 G t)) (map (\<lambda>p. p) (enumerate 0 scores))
              (relocate h0 G sa) = Some (relocate h0 G sb)"
      proof (rule forEach_sim [OF _ sa g])
        fix y sc sd
        assume "framed h0 sc" "h_ranksByMethodStep t y sc = Some sd"
        then show "framed h0 sd
            \<and> h_ranksByMethodStep (moved h0 G t) y (relocate h0 G sc) = Some (relocate h0 G sd)"
          using framed_ranksByMethodStep [OF _ assms(3)] sim_ranksByMethodStep [OF _ assms(2,3)]
          by blast
      qed
      with sim_scoresOf [OF sa assms(2) sc, of G] mo' True fr show ?thesis
        by (simp add: x)
    qed
  qed
  with ownEntries_sim [OF assms(1,2) m, of G] show ?thesis
    by (simp add: h_collectDatasetRanks_def)
qed

lemma sim_storeAverageRank:
  assumes "framed h0 s" and "closedHeap h0" and "own (length h0) t"
    and "h_storeAverageRank t dataset p s = Some s'"
  shows "h_storeAverageRank (moved h0 G t) dataset (fst p, moved h0 G (snd p)) (relocate h0 G s)
           = Some (relocate h0 G s')"
proof -
  obtain modelKey arr where p: "p = (modelKey, arr)" by (cases p) auto
  from assms(4) obtain entry where e: "readProp t modelKey s = Some entry"
    by (auto simp: h_storeAverageRank_def p bind_eq_Some_conv)
  note e' = readProp_sim [OF assms(1,2) e, of G]
  show ?thesis
  proof (cases "truthy entry")
    case False
    with assms(4) e e' show ?thesis by (simp add: h_storeAverageRank_def p)
  next
    case True
    with assms(4) e obtain ranks datasets where
      r: "numbers arr s = Some ranks"
      and d: "readProp entry ''datasets'' s = Some datasets"
      and w: "writeProp datasets dataset (VNum (reduceSum ranks / real (length ranks))) s = Some s'"
      by (auto simp: h_storeAverageRank_def p bind_eq_Some_conv)
    from own_readProp [OF assms(1,3) e] have oe: "own (length h0) entry" .
    from own_readProp [OF assms(1) oe d] have od: "own (length h0) datasets" .
    from writeProp_sim [OF assms(1) od w, of G] numbers_sim [OF assms(1,2) r, of G]
      readProp_sim [OF assms(1,2) d, of G] e' True
    show ?thesis
      by (simp add: h_storeAverageRank_def p)
  qed
qed

lemma sim_datasetRanks:
  assumes "framed h0 s" and "closedHeap h0" and "own (length h0) t"
    and "h_datasetRanks t rawData dataset s = Some s'"
  shows "h_datasetRanks (moved h0 G t) (moved h0 G rawData) dataset (relocate h0 G s)
           = Some (relocate h0 G s')"
proof -
  let ?mv = "\<lambda>p :: string \<times> val. (fst p, moved h0 G (snd p))"
  from assms(4) obtain s1 es where
    c: "h_collectDatasetRanks (VRef (length s)) rawData dataset (s @ [HObj []]) = Some s1"
    and es: "ownEntries (VRef (length s)) s1 = Some es"
    and f: "forEach (h_storeAverageRank t dataset) es s1 = Some s'"
    by (auto simp: h_datasetRanks_def bind_eq_Some_conv alloc_def)
  have 1: "framed h0 (s @ [HObj []])" and o: "own (length h0) (VRef (length s))"
    by (rule framed_snoc [OF assms(1)], simp) (rule own_fresh [OF assms(1)])
  from framed_collectDatasetRanks [OF 1 o c] have s1: "framed h0 s1" .
  have c': "h_collectDatasetRanks (VRef (length (relocate h0 G s))) (moved h0 G rawData) dataset
              (relocate h0 G s @ [HObj []]) = Some (relocate h0 G s1)"
    using sim_collectDatasetRanks [OF 1 assms(2) o c, of G]
    by (simp add: relocate_snoc [OF assms(1)] moved_fresh [OF assms(1)] movedObj_def)
  have es': "ownEntries (VRef (length (relocate h0 G s))) (relocate h0 G s1) = Some (map ?mv es)"
    using ownEntries_sim [OF s1 assms(2) es, of G]
    by (simp add: moved_fresh [OF assms(1)])
  have "forEach (h_storeAverageRank (moved h0 G t) dataset) (map ?mv es) (relocate h0 G s1)
      = Some (relocate h0 G s')"
  proof (rule forEach_sim [OF _ s1 f])
    fix y sc sd
    assume "framed h0 sc" "h_storeAverageRank t dataset y sc = Some sd"
    then show "framed h0 sd
        \<and> h_storeAverageRank (moved h0 G t) dataset (?mv y) (relocate h0 G sc)
            = Some (relocate h0 G sd)"
      using framed_storeAverageRank [OF _ assms(3)] sim_storeAverageRank [OF _ assms(2,3)]
      by blast
  qed
  with c' es' show ?thesis
    by (simp add: h_datasetRanks_def alloc_def)
qed

lemma sim_computeModelDatasetRanks:
  assumes "framed h0 s" and "closedHeap h0"
    and "h_computeModelDatasetRanks rawData modelRanks s = Some (result, s')"
  shows "h_computeModelDatasetRanks (moved h0 G rawData) (moved h0 G modelRanks) (relocate h0 G s)
           = Some (moved h0 G result, relocate h0 G s')"
proof -
  let ?t = "VRef (length s)"
  from assms(3) obtain ms s1 allDatasets where
    r: "result = ?t"
    and ms: "arrayElements modelRanks (s @ [HObj []]) = Some ms"
    and i: "forEach (h_initDatasetEntry ?t) ms (s @ [HObj []]) = Some s1"
    and a: "h_allDatasets rawData s1 = Some allDatasets"
    and f: "forEach (h_datasetRanks ?t rawData) allDatasets s1 = Some s'"
    by (auto simp: h_computeModelDatasetRanks_def bind_eq_Some_conv alloc_def)
  have 1: "framed h0 (s @ [HObj []])" and o: "own (length h0) ?t"
    by (rule framed_snoc [OF assms(1)], simp) (rule own_fresh [OF assms(1)])
  have s1: "framed h0 s1"
    by (rule framed_forEach [OF _ 1 i]) (rule framed_initDatasetEntry [OF _ o])
  have t: "moved h0 G ?t = VRef (length (relocate h0 G s))"
    by (rule moved_fresh [OF assms(1)])
  have r1: "relocate h0 G (s @ [HObj []]) = relocate h0 G s @ [HObj []]"
    by (simp add: relocate_snoc [OF assms(1)] movedObj_def)
  have ms': "arrayElements (moved h0 G modelRanks) (relocate h0 G s @ [HObj []])
      = Some (map (moved h0 G) ms)"
    using arrayElements_sim [OF 1 assms(2) ms, of G] by (simp only: r1)
  have i': "forEach (h_initDatasetEntry (VRef (length (relocate h0 G s)))) (map (moved h0 G) ms)
              (relocate h0 G s @ [HObj []]) = Some (relocate h0 G s1)"
  proof -
    have "forEach (h_initDatasetEntry (moved h0 G ?t)) (map (moved h0 G) ms)
              (relocate h0 G (s @ [HObj []])) = Some (relocate h0 G s1)"
    proof (rule forEach_sim [OF _ 1 i])
      fix y sc sd
      assume "framed h0 sc" "h_initDatasetEntry ?t y sc = Some sd"
      then show "framed h0 sd
          \<and> h_initDatasetEntry (moved h0 G ?t) (moved h0 G y) (relocate h0 G sc)
              = Some (relocate h0 G sd)"
        using framed_initDatasetEntry [OF _ o] sim_initDatasetEntry [OF _ assms(2) o] by blast
    qed
    then show ?thesis by (simp only: t r1)
  qed
  have f': "forEach (h_datasetRanks (VRef (length (relocate h0 G s))) (moved h0 G rawData))
              allDatasets (relocate h0 G s1) = Some (relocate h0 G s')"
  proof -
    have "forEach (h_datasetRanks (moved h0 G ?t) (moved h0 G rawData)) (map (\<lambda>d. d) allDatasets)
              (relocate h0 G s1) = Some (relocate h0 G s')"
    proof (rule forEach_sim [OF _ s1 f])
      fix y sc sd
      assume "framed h0 sc" "h_datasetRanks ?t rawData y sc = Some sd"
      then show "framed h0 sd
          \<and> h_datasetRanks (moved h0 G ?t) (moved h0 G rawData) y (relocate h0 G sc)
              = Some (relocate h0 G sd)"
        using framed_datasetRanks [OF _ o] sim_datasetRanks [OF _ assms(2) o] by blast
    qed
    then show ?thesis by (simp add: t)
  qed
  from ms' i' f' sim_allDatasets [OF s1 assms(2) a, of G] show ?thesis
    by (simp add: h_computeModelDatasetRanks_def alloc_def r t)
qed

lemma sim_computeDetailedStats:
  assumes "framed h0 s" and "closedHeap h0"
    and "h_computeDetailedStats rawData stats s = Some (result, s')"
  shows "h_computeDetailedStats (moved h0 G rawData) (moved h0 G stats) (relocate h0 G s)
           = Some (moved h0 G result, relocate h0 G s')"
proof -
  let ?mcr = "VRef (length s)"
  let ?res = "\<lambda>a b c. HObj [(''modelCategoryRanks'', a), (''modelMethodPerformance'', b),
                           (''modelDatasetRanks'', c)]"
  from assms(3) obtain modelRanks ms s1 s2 s3 s4 s5 modelRanks2 mdr s6 where
    mr: "readProp stats ''model_ranks'' (s @ [HObj []]) = Some modelRanks"
    and ms: "arrayElements modelRanks (s @ [HObj []]) = Some ms"
    and i: "forEach (h_initCategoryEntry ?mcr) ms (s @ [HObj []]) = Some s1"
    and c: "h_collectCategoryRanks ?mcr rawData s1 = Some s2"
    and a: "h_averageCategories ?mcr s2 = Some s3"
    and p: "h_collectMethodPerformance (VRef (length s3)) rawData (s3 @ [HObj []]) = Some s4"
    and m: "h_averageMethods (VRef (length s3)) s4 = Some s5"
    and mr2: "readProp stats ''model_ranks'' s5 = Some modelRanks2"
    and d: "h_computeModelDatasetRanks rawData modelRanks2 s5 = Some (mdr, s6)"
    and res: "result = VRef (length s6)"
    and s': "s' = s6 @ [?res ?mcr (VRef (length s3)) mdr]"
    by (auto simp: h_computeDetailedStats_def bind_eq_Some_conv alloc_def split: prod.splits)
  have 1: "framed h0 (s @ [HObj []])" and o: "own (length h0) ?mcr"
    by (rule framed_snoc [OF assms(1)], simp) (rule own_fresh [OF assms(1)])
  have f1: "framed h0 s1"
    by (rule framed_forEach [OF _ 1 i]) (rule framed_initCategoryEntry [OF _ o])
  from framed_collectCategoryRanks [OF f1 o c] have f2: "framed h0 s2" .
  from framed_averageCategories [OF f2 o a] have f3: "framed h0 s3" .
  have 3: "framed h0 (s3 @ [HObj []])" and o3: "own (length h0) (VRef (length s3))"
    by (rule framed_snoc [OF f3], simp) (rule own_fresh [OF f3])
  from framed_collectMethodPerformance [OF 3 o3 p] have f4: "framed h0 s4" .
  from framed_averageMethods [OF f4 o3 m] have f5: "framed h0 s5" .
  from framed_computeModelDatasetRanks [OF f5 d] have f6: "framed h0 s6"
    and om: "own (length h0) mdr"
    by simp_all
  let ?R = "relocate h0 G"
  let ?m = "moved h0 G"
  have t: "?m ?mcr = VRef (length (?R s))"
    by (rule moved_fresh [OF assms(1)])
  have t3: "?m (VRef (length s3)) = VRef (length (?R s3))"
    by (rule moved_fresh [OF f3])
  have t6: "?m (VRef (length s6)) = VRef (length (?R s6))"
    by (rule moved_fresh [OF f6])
  have r1: "?R (s @ [HObj []]) = ?R s @ [HObj []]"
    by (simp add: relocate_snoc [OF assms(1)] movedObj_def)
  have r3: "?R (s3 @ [HObj []]) = ?R s3 @ [HObj []]"
    by (simp add: relocate_snoc [OF f3] movedObj_def)
  have mr': "readProp (?m stats) ''model_ranks'' (?R s @ [HObj []]) = Some (?m modelRanks)"
    using readProp_sim [OF 1 assms(2) mr, of G] by (simp only: r1)
  have ms': "arrayElements (?m modelRanks) (?R s @ [HObj []]) = Some (map ?m ms)"
    using arrayElements_sim [OF 1 assms(2) ms, of G] by (simp only: r1)
  have i': "forEach (h_initCategoryEntry (VRef (length (?R s)))) (map ?m ms) (?R s @ [HObj []])
      = Some (?R s1)"
  proof -
    have "forEach (h_initCategoryEntry (?m ?mcr)) (map ?m ms) (?R (s @ [HObj []])) = Some (?R s1)"
    proof (rule forEach_sim [OF _ 1 i])
      fix y sc sd
      assume "framed h0 sc" "h_initCategoryEntry ?mcr y sc = Some sd"
      then show "framed h0 sd
          \<and> h_initCategoryEntry (?m ?mcr) (?m y) (?R sc) = Some (?R sd)"
        using framed_initCategoryEntry [OF _ o] sim_initCategoryEntry [OF _ assms(2) o] by blast
    qed
    then show ?thesis by (simp only: t r1)
  qed
  have c': "h_collectCategoryRanks (VRef (length (?R s))) (?m rawData) (?R s1) = Some (?R s2)"
    using sim_collectCategoryRanks [OF f1 assms(2) o c, of G] by (simp only: t)
  have a': "h_averageCategories (VRef (length (?R s))) (?R s2) = Some (?R s3)"
    using sim_averageCategories [OF f2 assms(2) o a, of G] by (simp only: t)
  have p': "h_collectMethodPerformance (VRef (length (?R s3))) (?m rawData) (?R s3 @ [HObj []])
      = Some (?R s4)"
    using sim_collectMethodPerformance [OF 3 assms(2) o3 p, of G] by (simp only: t3 r3)
  have m': "h_averageMethods (VRef (length (?R s3))) (?R s4) = Some (?R s5)"
    using sim_averageMethods [OF f4 assms(2) o3 m, of G] by (simp only: t3)
  note mr2' = readProp_sim [OF f5 assms(2) mr2, of G]
  note d' = sim_computeModelDatasetRanks [OF f5 assms(2) d, of G]
  have e: "?R s' = ?R s6 @ [?res (VRef (length (?R s))) (VRef (length (?R s3))) (?m mdr)]"
    unfolding s' by (simp add: relocate_snoc [OF f6] movedObj_def t t3)
  from mr' ms' i' c' a' p' m' mr2' d' show ?thesis
    by (simp add: h_computeDetailedStats_def alloc_def res t6 e)
qed

lemma snapshot_sim:
  assumes "framed h0 s" and "closedHeap h0"
  shows "snapshot d (relocate h0 G s) (moved h0 G v) = snapshot d s v"
proof (induction d arbitrary: v)
  case 0
  show ?case by (cases v) (simp_all add: moved_def)
next
  case (Suc d)
  show ?case
  proof (cases v)
    case (VRef a)
    obtain b where b: "moved h0 G (VRef a) = VRef b"
      by (cases "a < length h0") (auto simp: moved_def)
    show ?thesis
    proof (cases "a < length s")
      case True
      from relocate_cell [OF assms True b] have c: "b < length (relocate h0 G s)"
        "relocate h0 G s ! b = movedObj h0 G (s ! a)"
        by simp_all
      show ?thesis
        by (cases "s ! a") (simp_all add: VRef b c True movedObj_def comp_def Suc.IH)
    next
      case False
      from moved_dangling [OF assms(1) False b] False show ?thesis
        by (simp add: VRef b)
    qed
  qed simp_all
qed

text \<open>
  Claim C9. When the store holds no reference beyond its own cells and the raw table and the
  summary are in the store, a call of \<^verbatim>\<open>computeDetailedStats\<close> that returns can be repeated:
  the second call, in the store that the first call has left, returns as well, and its result
  has the same structure as the result of the first call, to every depth.
\<close>

theorem aggregation_repeatable:
  assumes "closedHeap h" and "below (length h) rawData" and "below (length h) stats"
    and "h_computeDetailedStats rawData stats h = Some (r1, h1)"
  shows "\<exists>r2 h2. h_computeDetailedStats rawData stats h1 = Some (r2, h2)
           \<and> (\<forall>d. snapshot d h2 r2 = snapshot d h1 r1)"
proof -
  define G where "G = drop (length h) h1"
  from framed_computeDetailedStats [OF framed_refl assms(4)] have f: "framed h h1" .
  have "h1 = take (length h) h1 @ drop (length h) h1"
    by simp
  then have h1: "h1 = h @ G"
    by (simp only: framed_take [OF f] G_def)
  have r: "relocate h G h = h1"
    by (simp add: relocate_def h1)
  from sim_computeDetailedStats [OF framed_refl assms(1,4), of G]
  have "h_computeDetailedStats rawData stats h1 = Some (moved h G r1, relocate h G h1)"
    by (simp only: moved_below [OF assms(2)] moved_below [OF assms(3)] r)
  moreover have "snapshot d (relocate h G h1) (moved h G r1) = snapshot d h1 r1" for d
    by (rule snapshot_sim [OF f assms(1)])
  ultimately show ?thesis by blast
qed


lemma exampleHeap_closed: "closedHeap exampleHeap"
  by code_simp

lemma exampleHeap_result:
  "(case h_computeDetailedStats (VRef 6) (VRef 11) exampleHeap of
      None \<Rightarrow> False
    | Some (r, h) \<Rightarrow> snapshot 4 h r = exampleResult)"
  by code_simp

text \<open>The theorem at the example store: the second call returns the structure that the
  first call returned.\<close>

theorem aggregation_repeatable_witness:
  "\<exists>r1 h1 r2 h2. h_computeDetailedStats (VRef 6) (VRef 11) exampleHeap = Some (r1, h1)
      \<and> h_computeDetailedStats (VRef 6) (VRef 11) h1 = Some (r2, h2)
      \<and> snapshot 4 h1 r1 = exampleResult
      \<and> snapshot 4 h2 r2 = exampleResult"
proof -
  from exampleHeap_result obtain r1 h1 where
    1: "h_computeDetailedStats (VRef 6) (VRef 11) exampleHeap = Some (r1, h1)"
    and s1: "snapshot 4 h1 r1 = exampleResult"
    by (cases "h_computeDetailedStats (VRef 6) (VRef 11) exampleHeap") auto
  have b: "below (length exampleHeap) (VRef 6)" "below (length exampleHeap) (VRef 11)"
    by (simp_all add: below_def exampleHeap_def)
  from aggregation_repeatable [OF exampleHeap_closed b 1] obtain r2 h2 where
    2: "h_computeDetailedStats (VRef 6) (VRef 11) h1 = Some (r2, h2)"
    and s: "\<forall>d. snapshot d h2 r2 = snapshot d h1 r1"
    by blast
  from s s1 have "snapshot 4 h2 r2 = exampleResult"
    by simp
  with 1 2 s1 show ?thesis by blast
qed


end
